theory Spec2Isabelle
  imports Complex_Main "HOL-Library.Sublist" "HOL-Library.AList"
begin

section \<open>Data model\<close>

text \<open>
  The visualizer keeps three registries: \<open>DeviceManager.devices\<close> and
  \<open>DeviceManager.labels\<close> (JavaScript \<open>Map\<close>s keyed by the device name) and
  \<open>ConnectionManager.connections\<close> (an array).  A \<open>Map\<close> iterates in insertion order
  and \<open>set\<close> on a present key overwrites the value in place, which is what
  \<open>AList.update\<close> does on an association list.

  Numbers are IEEE doubles in the source; they are modelled as reals, so rounding is not
  part of the model.  All coordinates the layout code produces are small multiples of 2 and
  exact in either reading.
\<close>

datatype Vector3 = Vector3 (vx: real) (vy: real) (vz: real)

text \<open>The optional \<open>position\<close> object of a descriptor: each coordinate may be absent.\<close>

datatype position_input = PositionInput (px: "real option") (py: "real option") (pz: "real option")

text \<open>
  A device descriptor (\<open>deviceInfo\<close> in DeviceManager.js, \<open>modelInfo\<close> in the older
  DeviceManager).  A missing property reads as \<open>undefined\<close>, modelled by \<open>None\<close>.
\<close>

record deviceInfo =
  info_id :: "string option"
  info_name :: "string option"
  info_type :: "string option"
  info_category :: "string option"
  info_mac :: "string option"
  info_position :: "position_input option"

text \<open>
  A scene node (mesh).  Nodes live in the scene from their creation on; the source never
  disposes one.  The node type belongs to the rendering library, which is not part of the
  sources: \<open>enabled\<close> is the flag that \<open>setEnabled\<close> writes (for a label, the truth value
  of what it stored), and a freshly created node is enabled.
\<close>

record node =
  node_name :: string
  position :: Vector3
  enabled :: bool

text \<open>
  A label plane: its own enabled flag and its parent, a reference into the scene.  The
  source reaches a label through the \<open>labels\<close> map only, so the map holds it by value;
  a device mesh is shared between the device entry and the label's \<open>parent\<close>, so it is
  held in the scene and referred to by its index.
\<close>

record label =
  label_enabled :: bool
  label_parent :: nat

record device =
  mesh :: nat
  info :: deviceInfo
  visible :: bool

record DeviceManager =
  scene :: "node list"
  devices :: "(string option \<times> device) list"
  labels :: "(string option \<times> label) list"
  loadedModels :: "(string \<times> nat option) list"
  importLog :: "string list"

text \<open>
  \<open>importLog\<close> records every call of \<open>BABYLON.SceneLoader.ImportMeshAsync\<close> (its path
  argument), in order; it is the only place where an asset fetch is issued.
\<close>

definition new_DeviceManager :: DeviceManager where
  "new_DeviceManager =
     \<lparr>scene = [], devices = [], labels = [], loadedModels = [], importLog = []\<rparr>"

text \<open>
  What the model cannot see in the sources: whether an asset import resolves, whether
  the procedural builders (\<open>createFortiGateModel\<close>, \<open>createFortiSwitchModel\<close>,
  \<open>createFortiAPModel\<close>, \<open>createRouterModel\<close>, \<open>createGenericDeviceModel\<close>,
  \<open>createEndpointModel\<close>, none of them part of the sources at hand) return a mesh or
  throw, and what the engine's \<open>String.prototype.toLowerCase\<close> makes of a string (it
  follows the Unicode case mappings).  All three are parameters.
\<close>

datatype builder = FortiGate | FortiSwitch | FortiAP | Router | GenericDevice | Endpoint

record env =
  importMesh :: "string \<Rightarrow> bool"
  procedural :: "builder \<Rightarrow> deviceInfo \<Rightarrow> bool"
  toLowerCase :: "string \<Rightarrow> string"

text \<open>
  The value a property of a parsed JSON document can have, or \<open>undefined\<close> when the
  property is absent; objects and arrays are one opaque value.  \<open>truthy\<close> is the
  conversion to boolean that \<open>||\<close> and \<open>&&\<close> apply.
\<close>

datatype jsvalue = JUndefined | JNull | JBoolean bool | JNumber real | JString string | JObject

definition truthy :: "jsvalue \<Rightarrow> bool" where
  "truthy v =
     (case v of
        JUndefined \<Rightarrow> False
      | JNull \<Rightarrow> False
      | JBoolean b \<Rightarrow> b
      | JNumber r \<Rightarrow> r \<noteq> 0
      | JString s \<Rightarrow> s \<noteq> []
      | JObject \<Rightarrow> True)"

text \<open>A property of a descriptor whose name and hardware address are strings or absent.\<close>

definition property :: "string option \<Rightarrow> jsvalue" where
  "property v = (case v of None \<Rightarrow> JUndefined | Some s \<Rightarrow> JString s)"

datatype error = TypeError

section \<open>Strings\<close>

text \<open>
  \<open>startsWith\<close> and \<open>includes\<close> (here \<open>str_includes\<close>) are prefix and
  contiguous-substring tests.  \<open>asciiLowerCase\<close> is what \<open>toLowerCase\<close> does on a string
  of ASCII characters; the sample environments use it, on ASCII strings only.
\<close>

definition lower_char :: "char \<Rightarrow> char" where
  "lower_char c =
     (let n = (of_char c :: nat) in if 65 \<le> n \<and> n \<le> 90 then char_of (n + 32) else c)"

definition asciiLowerCase :: "string \<Rightarrow> string" where
  "asciiLowerCase s = map lower_char s"

definition startsWith :: "string \<Rightarrow> string \<Rightarrow> bool" where
  "startsWith s p = prefix p s"

definition str_includes :: "string \<Rightarrow> string \<Rightarrow> bool" where
  "str_includes s p = sublist p s"

text \<open>The template literal \<open>`${v}`\<close> on an optional string.\<close>

definition template_str :: "string option \<Rightarrow> string" where
  "template_str v = (case v of None \<Rightarrow> ''undefined'' | Some s \<Rightarrow> s)"

section \<open>detectEndpointType\<close>

definition macVendors :: "(string \<times> string list) list" where
  "macVendors =
     [(''apple'', [''28:cf:e9'', ''a4:c3:61'', ''40:a6:d9'', ''98:01:a7'']),
      (''samsung'', [''e8:50:8b'', ''ac:c1:ee'', ''38:b1:db'']),
      (''dell'', [''10:9a:dd'', ''18:03:73'', ''84:2b:2b'']),
      (''hp'', [''28:cf:e9'', ''3c:d9:2b'', ''f0:4d:a5'']),
      (''lenovo'', [''70:72:3c'', ''00:1a:6b'', ''f4:ce:46''])]"

text \<open>The two nested \<open>for\<close> loops with their early return: the first vendor with a matching prefix.\<close>

fun matchVendor :: "(string \<times> string list) list \<Rightarrow> string \<Rightarrow> string option" where
  "matchVendor [] mac = None"
| "matchVendor ((vendor, vprefixes) # rest) mac =
     (if list_ex (startsWith mac) vprefixes then Some vendor else matchVendor rest mac)"

definition detectByName :: "string \<Rightarrow> string" where
  "detectByName name =
     (if str_includes name ''laptop'' \<or> str_includes name ''notebook'' \<or> str_includes name ''macbook''
      then ''laptop''
      else if str_includes name ''desktop'' \<or> str_includes name ''pc'' \<or> str_includes name ''tower''
      then ''desktop''
      else if str_includes name ''phone'' \<or> str_includes name ''mobile'' \<or> str_includes name ''iphone''
              \<or> str_includes name ''android''
      then ''mobile''
      else ''desktop'')"

text \<open>
  \<open>(v || '').toLowerCase()\<close>: a falsy value is replaced by the empty string; a truthy
  value that is not a string has no \<open>toLowerCase\<close> method, and the call throws a
  \<open>TypeError\<close>.
\<close>

definition lowerCased :: "env \<Rightarrow> jsvalue \<Rightarrow> error + string" where
  "lowerCased e v =
     (if \<not> truthy v then Inr (toLowerCase e [])
      else case v of JString s \<Rightarrow> Inr (toLowerCase e s) | _ \<Rightarrow> Inl TypeError)"

text \<open>
  \<open>detectEndpointType(deviceInfo)\<close> reads two properties of its argument,
  \<open>deviceInfo.name\<close> and \<open>deviceInfo.mac\<close>, in this order; they are the two value
  arguments here.
\<close>

definition detectEndpointType :: "env \<Rightarrow> jsvalue \<Rightarrow> jsvalue \<Rightarrow> error + string" where
  "detectEndpointType e deviceInfo_name deviceInfo_mac =
     (case lowerCased e deviceInfo_name of
        Inl err \<Rightarrow> Inl err
      | Inr name \<Rightarrow>
          (case lowerCased e deviceInfo_mac of
             Inl err \<Rightarrow> Inl err
           | Inr mac \<Rightarrow>
               Inr (case matchVendor macVendors mac of
                      Some vendor \<Rightarrow> (if vendor = ''apple'' then ''laptop'' else ''desktop'')
                    | None \<Rightarrow> detectByName name)))"

section \<open>Positions\<close>

text \<open>
  \<open>Math.ceil(Math.sqrt(n))\<close> on a natural number: the least \<open>g\<close> with \<open>n \<le> g * g\<close>,
  found by counting up.
\<close>

function ceil_sqrt_from :: "nat \<Rightarrow> nat \<Rightarrow> nat" where
  "ceil_sqrt_from g n = (if n \<le> g * g then g else ceil_sqrt_from (Suc g) n)"
  by pat_completeness auto
termination
proof (relation "measure (\<lambda>(g, n). n - g)")
  show "wf (measure (\<lambda>(g, n). n - g))" by simp
next
  fix g n :: nat
  assume "\<not> n \<le> g * g"
  then have "g * g < n" by simp
  moreover have "g \<le> g * g" by (cases g) simp_all
  ultimately have "g < n" by (rule le_less_trans [rotated])
  then show "((Suc g, n), (g, n)) \<in> measure (\<lambda>(g, n). n - g)" by simp
qed

declare ceil_sqrt_from.simps [simp del]

definition ceil_sqrt :: "nat \<Rightarrow> nat" where
  "ceil_sqrt n = ceil_sqrt_from 0 n"

text \<open>\<open>autoPositionDevice(mesh, index)\<close>: the position it writes into the mesh.\<close>

definition autoPosition :: "nat \<Rightarrow> Vector3" where
  "autoPosition index =
     (let gridSize = ceil_sqrt (index + 1);
          spacing = 4;
          row = index div gridSize;
          col = index mod gridSize
      in Vector3 ((real col - real gridSize / 2) * spacing) 1
                 ((real row - real gridSize / 2) * spacing))"

definition autoPositionDevice :: "node \<Rightarrow> nat \<Rightarrow> node" where
  "autoPositionDevice m index = m\<lparr>position := autoPosition index\<rparr>"

text \<open>\<open>v || d\<close> on an optional number: the default replaces an absent and a zero value.\<close>

definition or_default :: "real option \<Rightarrow> real \<Rightarrow> real" where
  "or_default v d = (case v of None \<Rightarrow> d | Some r \<Rightarrow> if r = 0 then d else r)"

definition explicitPosition :: "position_input \<Rightarrow> Vector3" where
  "explicitPosition p = Vector3 (or_default (px p) 0) (or_default (py p) 1) (or_default (pz p) 0)"

section \<open>DeviceManager\<close>

subsection \<open>preloadModels\<close>

definition modelPaths :: "(string \<times> string) list" where
  "modelPaths =
     [(''firewall'', ''assets/models/fortigate-61e.glb''),
      (''switch'', ''assets/models/fortiswitch-124e-poe.glb''),
      (''access_point'', ''assets/models/fortiap-231f.glb''),
      (''router'', ''assets/models/router.glb''),
      (''endpoint-laptop'', ''assets/models/endpoint-laptop.glb''),
      (''endpoint-desktop'', ''assets/models/endpoint-desktop.glb''),
      (''endpoint-mobile'', ''assets/models/endpoint-mobile.glb''),
      (''endpoint-server'', ''assets/models/endpoint-server.glb'')]"

text \<open>Creating a node puts it into the scene; its reference is its index there.\<close>

definition add_node :: "node \<Rightarrow> DeviceManager \<Rightarrow> nat \<times> DeviceManager" where
  "add_node n s = (length (scene s), s\<lparr>scene := scene s @ [n]\<rparr>)"

text \<open>
  One round of the \<open>for\<close> loop of \<open>preloadModels\<close>: the import is issued without looking
  at \<open>loadedModels\<close> first; the \<open>try\<close> branch stores the root mesh, the \<open>catch\<close> branch
  stores \<open>null\<close>.
\<close>

definition preloadModel :: "env \<Rightarrow> string \<Rightarrow> string \<Rightarrow> DeviceManager \<Rightarrow> DeviceManager" where
  "preloadModel e deviceType modelPath s =
     (let s1 = s\<lparr>importLog := importLog s @ [modelPath]\<rparr>
      in if importMesh e modelPath
         then (let (r, s2) =
                     add_node \<lparr>node_name = modelPath, position = Vector3 0 0 0, enabled = True\<rparr> s1
               in s2\<lparr>loadedModels := AList.update deviceType (Some r) (loadedModels s2)\<rparr>)
         else s1\<lparr>loadedModels := AList.update deviceType None (loadedModels s1)\<rparr>)"

fun preloadLoop :: "env \<Rightarrow> (string \<times> string) list \<Rightarrow> DeviceManager \<Rightarrow> DeviceManager" where
  "preloadLoop e [] s = s"
| "preloadLoop e ((deviceType, modelPath) # rest) s =
     preloadLoop e rest (preloadModel e deviceType modelPath s)"

definition preloadModels :: "env \<Rightarrow> DeviceManager \<Rightarrow> DeviceManager" where
  "preloadModels e s = preloadLoop e modelPaths s"

subsection \<open>createDevice\<close>

text \<open>\<open>this.loadedModels.has(key) && this.loadedModels.get(key)\<close>: a stored, non-null template.\<close>

definition loadedModel :: "DeviceManager \<Rightarrow> string option \<Rightarrow> nat option" where
  "loadedModel s key =
     (case key of
        None \<Rightarrow> None
      | Some k \<Rightarrow> (case map_of (loadedModels s) k of Some (Some r) \<Rightarrow> Some r | _ \<Rightarrow> None))"

definition createModelInstance :: "deviceInfo \<Rightarrow> nat \<Rightarrow> DeviceManager \<Rightarrow> nat \<times> DeviceManager" where
  "createModelInstance deviceInfo sourceMesh s =
     add_node \<lparr>node_name = template_str (info_name deviceInfo) @ ''_3d_model'',
               position = Vector3 0 0 0, enabled = True\<rparr> s"

text \<open>
  \<open>createMesh\<close> below is the part of the \<open>try\<close> block of \<open>createDevice\<close> that makes the
  mesh; \<open>None\<close> stands for an exception thrown there (by a builder or by
  \<open>detectEndpointType\<close>).
\<close>

text \<open>
  A procedural builder either returns a new mesh or throws (\<open>None\<close>); which one is the
  parameter's choice.  The mesh is taken to carry the device name, as the box of the older
  \<open>loadDevice\<close> does.
\<close>

definition proceduralModel ::
  "env \<Rightarrow> builder \<Rightarrow> deviceInfo \<Rightarrow> DeviceManager \<Rightarrow> (nat \<times> DeviceManager) option" where
  "proceduralModel e b deviceInfo s =
     (if procedural e b deviceInfo
      then Some (add_node \<lparr>node_name = template_str (info_name deviceInfo),
                           position = Vector3 0 0 0, enabled = True\<rparr> s)
      else None)"

definition selectBuilder :: "string option \<Rightarrow> builder" where
  "selectBuilder t =
     (if t = Some ''firewall'' then FortiGate
      else if t = Some ''switch'' then FortiSwitch
      else if t = Some ''access_point'' then FortiAP
      else if t = Some ''router'' then Router
      else GenericDevice)"

definition createMesh :: "env \<Rightarrow> deviceInfo \<Rightarrow> DeviceManager \<Rightarrow> (nat \<times> DeviceManager) option" where
  "createMesh e deviceInfo s =
     (if info_type deviceInfo = Some ''endpoint''
      then (case detectEndpointType e (property (info_name deviceInfo))
                   (property (info_mac deviceInfo)) of
              Inl err \<Rightarrow> None
            | Inr endpointType \<Rightarrow>
                (let modelKey = ''endpoint-'' @ endpointType
                 in case loadedModel s (Some modelKey) of
                      Some src \<Rightarrow> Some (createModelInstance deviceInfo src s)
                    | None \<Rightarrow> proceduralModel e Endpoint deviceInfo s))
      else (case loadedModel s (info_type deviceInfo) of
              Some src \<Rightarrow> Some (createModelInstance deviceInfo src s)
            | None \<Rightarrow> proceduralModel e (selectBuilder (info_type deviceInfo)) deviceInfo s))"

definition setPosition :: "nat \<Rightarrow> Vector3 \<Rightarrow> DeviceManager \<Rightarrow> DeviceManager" where
  "setPosition m p s = s\<lparr>scene := (scene s)[m := (scene s ! m)\<lparr>position := p\<rparr>]\<rparr>"

text \<open>The label plane is parented to the mesh and stored under the device name.\<close>

definition createLabel :: "nat \<Rightarrow> string option \<Rightarrow> DeviceManager \<Rightarrow> DeviceManager" where
  "createLabel m text s =
     s\<lparr>labels := AList.update text \<lparr>label_enabled = True, label_parent = m\<rparr> (labels s)\<rparr>"

text \<open>
  \<open>createDevice\<close> on a descriptor object: the whole body is one \<open>try\<close>; when
  creating the mesh throws, the \<open>catch\<close> logs and the manager is left as it was.  The interaction handlers
  (\<open>setupDeviceInteraction\<close>) change nothing the model holds.
\<close>

definition createDevice :: "env \<Rightarrow> deviceInfo \<Rightarrow> DeviceManager \<Rightarrow> DeviceManager" where
  "createDevice e deviceInfo s =
     (case createMesh e deviceInfo s of
        None \<Rightarrow> s
      | Some (m, s1) \<Rightarrow>
          (let s2 = (case info_position deviceInfo of
                       Some p \<Rightarrow> setPosition m (explicitPosition p) s1
                     | None \<Rightarrow>
                         s1\<lparr>scene := (scene s1)
                              [m := autoPositionDevice (scene s1 ! m) (length (devices s1))]\<rparr>);
               s3 = s2\<lparr>devices :=
                         AList.update (info_name deviceInfo)
                           \<lparr>mesh = m, info = deviceInfo, visible = True\<rparr> (devices s2)\<rparr>
           in createLabel m (info_name deviceInfo) s3))"

fun createDevices :: "env \<Rightarrow> deviceInfo list \<Rightarrow> DeviceManager \<Rightarrow> DeviceManager" where
  "createDevices e [] s = s"
| "createDevices e (deviceInfo # rest) s = createDevices e rest (createDevice e deviceInfo s)"

definition loadDevices :: "env \<Rightarrow> deviceInfo list \<Rightarrow> DeviceManager \<Rightarrow> DeviceManager" where
  "loadDevices e deviceData s = createDevices e deviceData (preloadModels e s)"

subsection \<open>Array elements that are not objects\<close>

text \<open>
  \<open>createDevice\<close>, \<open>createDevices\<close> and \<open>loadDevices\<close> above are the functions on
  descriptor objects, where the \<open>catch\<close> handler of \<open>createDevice\<close> cannot throw.  An
  element of the array given to \<open>loadDevices\<close> need not be an object: in JSON it can be
  \<open>null\<close>.  Below, \<open>None\<close> is a \<open>null\<close> (or \<open>undefined\<close>) element and \<open>Some deviceInfo\<close>
  a descriptor object.

  The promise of an \<open>async\<close> function resolves, or rejects with the exception that left
  its body.
\<close>

datatype completion = Resolved | Rejected error

text \<open>
  The \<open>catch\<close> handler of \<open>createDevice\<close> builds its message from \<open>deviceInfo.name\<close>:
  reading a property of \<open>null\<close> throws a TypeError, and nothing encloses the handler.
\<close>

definition catchHandler :: "deviceInfo option \<Rightarrow> completion" where
  "catchHandler element =
     (case element of
        None \<Rightarrow> Rejected TypeError
      | Some deviceInfo \<Rightarrow> Resolved)"

text \<open>
  \<open>createDevice\<close> on an array element.  On \<open>null\<close> the first statement of the \<open>try\<close>
  block, the test of \<open>deviceInfo.type\<close>, throws before anything is changed, and the
  handler runs.  On an object the outcome is that of \<open>createDevice\<close> above, whose promise
  resolves whether the mesh was created or not.
\<close>

definition createDevice_element ::
  "env \<Rightarrow> deviceInfo option \<Rightarrow> DeviceManager \<Rightarrow> completion \<times> DeviceManager" where
  "createDevice_element e element s =
     (case element of
        None \<Rightarrow> (catchHandler element, s)
      | Some deviceInfo \<Rightarrow> (Resolved, createDevice e deviceInfo s))"

text \<open>
  The \<open>for\<close> loop of \<open>loadDevices\<close> awaits each \<open>createDevice\<close> with no \<open>try\<close> around
  it: a rejected promise ends the loop and rejects the promise of \<open>loadDevices\<close>.
\<close>

fun createDevices_elements ::
  "env \<Rightarrow> deviceInfo option list \<Rightarrow> DeviceManager \<Rightarrow> completion \<times> DeviceManager" where
  "createDevices_elements e [] s = (Resolved, s)"
| "createDevices_elements e (element # rest) s =
     (case createDevice_element e element s of
        (Resolved, s1) \<Rightarrow> createDevices_elements e rest s1
      | (Rejected err, s1) \<Rightarrow> (Rejected err, s1))"

definition loadDevices_elements ::
  "env \<Rightarrow> deviceInfo option list \<Rightarrow> DeviceManager \<Rightarrow> completion \<times> DeviceManager" where
  "loadDevices_elements e deviceData s = createDevices_elements e deviceData (preloadModels e s)"

text \<open>\<open>loadDevice\<close> of the older DeviceManager: always a box named after the device.\<close>

definition loadDevice :: "deviceInfo \<Rightarrow> DeviceManager \<Rightarrow> DeviceManager" where
  "loadDevice modelInfo s =
     (let (m, s1) = add_node \<lparr>node_name = template_str (info_name modelInfo),
                              position = Vector3 0 0 0, enabled = True\<rparr> s;
          s2 = s1\<lparr>devices :=
                    AList.update (info_name modelInfo)
                      \<lparr>mesh = m, info = modelInfo, visible = True\<rparr> (devices s1)\<rparr>
      in createLabel m (info_name modelInfo) s2)"

subsection \<open>Queries and filters\<close>

definition getAllDevices :: "DeviceManager \<Rightarrow> device list" where
  "getAllDevices s = map snd (devices s)"

definition getDevicesByCategory :: "string \<Rightarrow> DeviceManager \<Rightarrow> device list" where
  "getDevicesByCategory category s =
     filter (\<lambda>device. info_type (info device) = Some category) (getAllDevices s)"

definition getVisibleDeviceCount :: "DeviceManager \<Rightarrow> nat" where
  "getVisibleDeviceCount s = length (filter visible (getAllDevices s))"

definition getDeviceCount :: "DeviceManager \<Rightarrow> nat" where
  "getDeviceCount s = length (devices s)"

definition setEnabled :: "nat \<Rightarrow> bool \<Rightarrow> node list \<Rightarrow> node list" where
  "setEnabled r v sc = (if r < length sc then sc[r := (sc ! r)\<lparr>enabled := v\<rparr>] else sc)"

text \<open>
  The member read \<open>node.isEnabled\<close>, as in \<open>label.parent.isEnabled\<close>: the source does
  not call it.  On the node of the rendering library \<open>isEnabled\<close> is a method, so the
  read yields the function itself, which is truthy whatever the flag of the node is.
\<close>

definition isEnabled_member :: "node \<Rightarrow> bool" where
  "isEnabled_member n = True"

text \<open>\<open>categories.includes(v)\<close> on a list of strings: \<open>undefined\<close> is never a member.\<close>

definition categories_include :: "string list \<Rightarrow> string option \<Rightarrow> bool" where
  "categories_include categories v = (case v of None \<Rightarrow> False | Some t \<Rightarrow> t \<in> set categories)"

text \<open>
  \<open>const label = this.labels.get(name); if (label) label.setEnabled(v)\<close>, where \<open>v\<close>
  may read the label (its parent).
\<close>

definition labelSetEnabled ::
  "string option \<Rightarrow> (label \<Rightarrow> bool) \<Rightarrow> (string option \<times> label) list \<Rightarrow>
   (string option \<times> label) list" where
  "labelSetEnabled name v ls =
     (case map_of ls name of
        None \<Rightarrow> ls
      | Some lbl \<Rightarrow> AList.update name (lbl\<lparr>label_enabled := v lbl\<rparr>) ls)"

text \<open>
  The \<open>forEach\<close> of \<open>filterByCategories\<close> (DeviceManager.js): each entry is visited once,
  in order; its \<open>visible\<close> field, its mesh and the label found under its name are written.
  A registered device always has a mesh, so the guard \<open>if (device.mesh)\<close> is always
  passed.
\<close>

fun filterEach ::
  "bool \<Rightarrow> string list \<Rightarrow> (string option \<times> device) list \<Rightarrow> node list \<Rightarrow>
   (string option \<times> label) list \<Rightarrow>
   (string option \<times> device) list \<times> node list \<times> (string option \<times> label) list" where
  "filterEach showAll categories [] sc ls = ([], sc, ls)"
| "filterEach showAll categories ((name, device) # rest) sc ls =
     (let shouldShow = (showAll \<or> categories_include categories (info_type (info device)));
          sc1 = setEnabled (mesh device) shouldShow sc;
          ls1 = labelSetEnabled name
                  (\<lambda>lbl. shouldShow \<and> isEnabled_member (sc1 ! label_parent lbl)) ls;
          (rest', sc2, ls2) = filterEach showAll categories rest sc1 ls1
      in ((name, device\<lparr>visible := shouldShow\<rparr>) # rest', sc2, ls2))"

definition filterByCategories :: "string list \<Rightarrow> DeviceManager \<Rightarrow> DeviceManager" where
  "filterByCategories categories s =
     (let showAll = (''all'' \<in> set categories);
          (ds, sc, ls) = filterEach showAll categories (devices s) (scene s) (labels s)
      in s\<lparr>devices := ds, scene := sc, labels := ls\<rparr>)"

text \<open>
  The older DeviceManager: the same loop on \<open>info.category\<close>, and the label gets
  \<open>shouldShow\<close> itself.
\<close>

fun filterEach_category ::
  "bool \<Rightarrow> string list \<Rightarrow> (string option \<times> device) list \<Rightarrow> node list \<Rightarrow>
   (string option \<times> label) list \<Rightarrow>
   (string option \<times> device) list \<times> node list \<times> (string option \<times> label) list" where
  "filterEach_category showAll categories [] sc ls = ([], sc, ls)"
| "filterEach_category showAll categories ((name, device) # rest) sc ls =
     (let shouldShow = (showAll \<or> categories_include categories (info_category (info device)));
          sc1 = setEnabled (mesh device) shouldShow sc;
          ls1 = labelSetEnabled name (\<lambda>lbl. shouldShow) ls;
          (rest', sc2, ls2) = filterEach_category showAll categories rest sc1 ls1
      in ((name, device\<lparr>visible := shouldShow\<rparr>) # rest', sc2, ls2))"

definition filterByCategories_category :: "string list \<Rightarrow> DeviceManager \<Rightarrow> DeviceManager" where
  "filterByCategories_category categories s =
     (let showAll = (''all'' \<in> set categories);
          (ds, sc, ls) = filterEach_category showAll categories (devices s) (scene s) (labels s)
      in s\<lparr>devices := ds, scene := sc, labels := ls\<rparr>)"

text \<open>\<open>toggleLabels\<close> is the same in both versions of the class.\<close>

definition toggleLabels :: "bool \<Rightarrow> DeviceManager \<Rightarrow> DeviceManager" where
  "toggleLabels show s =
     s\<lparr>labels :=
         map (\<lambda>(name, lbl).
                (name, lbl\<lparr>label_enabled :=
                              (show \<and> isEnabled_member (scene s ! label_parent lbl))\<rparr>))
             (labels s)\<rparr>"

text \<open>
  The operations a session is made of, and a run of them on a manager.  The last two are
  the loading and filtering methods of the older version of the class.
\<close>

datatype operation =
    LoadDevices env "deviceInfo list"
  | FilterByCategories "string list"
  | ToggleLabels bool
  | LoadDevice deviceInfo
  | FilterByCategories_category "string list"

fun apply_operation :: "operation \<Rightarrow> DeviceManager \<Rightarrow> DeviceManager" where
  "apply_operation (LoadDevices e deviceData) s = loadDevices e deviceData s"
| "apply_operation (FilterByCategories categories) s = filterByCategories categories s"
| "apply_operation (ToggleLabels show) s = toggleLabels show s"
| "apply_operation (LoadDevice modelInfo) s = loadDevice modelInfo s"
| "apply_operation (FilterByCategories_category categories) s =
     filterByCategories_category categories s"

definition run :: "operation list \<Rightarrow> DeviceManager \<Rightarrow> DeviceManager" where
  "run ops s = fold apply_operation ops s"

section \<open>ConnectionManager\<close>

record connection =
  conn_mesh1 :: node
  conn_mesh2 :: node
  line :: "Vector3 list"
  line_enabled :: bool
  conn_visible :: bool

record ConnectionManager =
  connections :: "connection list"
  cm_visible :: bool

definition new_ConnectionManager :: ConnectionManager where
  "new_ConnectionManager = \<lparr>connections = [], cm_visible = True\<rparr>"

definition linePoints :: "Vector3 \<Rightarrow> Vector3 \<Rightarrow> Vector3 list" where
  "linePoints p1 p2 = [p1, Vector3 ((vx p1 + vx p2) / 2) (1 / 10) ((vz p1 + vz p2) / 2), p2]"

definition createConnection :: "node \<Rightarrow> node \<Rightarrow> ConnectionManager \<Rightarrow> ConnectionManager" where
  "createConnection mesh1 mesh2 cm =
     cm\<lparr>connections := connections cm @
          [\<lparr>conn_mesh1 = mesh1, conn_mesh2 = mesh2,
            line = linePoints (position mesh1) (position mesh2),
            line_enabled = True, conn_visible = True\<rparr>]\<rparr>"

definition toggleVisibility :: "bool \<Rightarrow> ConnectionManager \<Rightarrow> ConnectionManager" where
  "toggleVisibility show cm =
     cm\<lparr>cm_visible := show,
        connections := map (\<lambda>conn. conn\<lparr>line_enabled := show\<rparr>) (connections cm)\<rparr>"

definition getConnectionCount :: "ConnectionManager \<Rightarrow> nat" where
  "getConnectionCount cm = length (connections cm)"

record connectionInfo =
  conn_from :: string
  conn_to :: string

text \<open>
  Modelled from the spec: \<open>ConnectionManager.loadConnections\<close>, which \<open>loadTopologyData\<close>
  and \<open>loadSampleData\<close> call but which the ConnectionManager source at hand does not
  define.  The spec: resolve each endpoint name against the device registry; skip a pair
  that references an unknown name (non-fatal); a resolvable pair gets a connection.
\<close>

definition resolveDevice :: "DeviceManager \<Rightarrow> string \<Rightarrow> node option" where
  "resolveDevice dm name =
     (case map_of (devices dm) (Some name) of
        None \<Rightarrow> None
      | Some device \<Rightarrow> Some (scene dm ! mesh device))"

text \<open>
  Modelled from the spec: the loop of \<open>loadConnections\<close> over the pairs, in input order;
  a pair with an unknown name leaves the manager as it is, a resolvable pair goes to the
  source's \<open>createConnection\<close>.
\<close>

fun loadConnections ::
  "DeviceManager \<Rightarrow> connectionInfo list \<Rightarrow> ConnectionManager \<Rightarrow> ConnectionManager" where
  "loadConnections dm [] cm = cm"
| "loadConnections dm (pair # rest) cm =
     loadConnections dm rest
       (case resolveDevice dm (conn_from pair) of
          None \<Rightarrow> cm
        | Some mesh1 \<Rightarrow>
            (case resolveDevice dm (conn_to pair) of
               None \<Rightarrow> cm
             | Some mesh2 \<Rightarrow> createConnection mesh1 mesh2 cm))"

section \<open>Predicates of the registry\<close>

text \<open>The position \<open>createDevice\<close> gives a device that is registered at the given index.\<close>

definition resolvedPosition :: "deviceInfo \<Rightarrow> nat \<Rightarrow> Vector3" where
  "resolvedPosition d index =
     (case info_position d of Some p \<Rightarrow> explicitPosition p | None \<Rightarrow> autoPosition index)"

text \<open>Creating the mesh of a descriptor does not throw.\<close>

definition creationSucceeds :: "env \<Rightarrow> DeviceManager \<Rightarrow> deviceInfo \<Rightarrow> bool" where
  "creationSucceeds e s d = (createMesh e d s \<noteq> None)"

text \<open>
  The shape every manager has that the operations build: the two maps have distinct keys,
  no two devices share a mesh, every device mesh is in the scene, and every label hangs
  on the mesh of the device registered under the label's name.
\<close>

definition labelOnItsDevice :: "DeviceManager \<Rightarrow> string option \<times> label \<Rightarrow> bool" where
  "labelOnItsDevice s entry =
     (case map_of (devices s) (fst entry) of
        None \<Rightarrow> False
      | Some device \<Rightarrow> label_parent (snd entry) = mesh device)"

definition registry_wf :: "DeviceManager \<Rightarrow> bool" where
  "registry_wf s =
     (distinct (map fst (devices s)) \<and> distinct (map fst (labels s)) \<and>
      distinct (map (\<lambda>entry. mesh (snd entry)) (devices s)) \<and>
      list_all (\<lambda>entry. mesh (snd entry) < length (scene s)) (devices s) \<and>
      list_all (labelOnItsDevice s) (labels s))"

text \<open>The mesh of every registered device is enabled exactly when the device is visible.\<close>

definition meshesFollowVisible :: "DeviceManager \<Rightarrow> bool" where
  "meshesFollowVisible s =
     list_all (\<lambda>entry. enabled (scene s ! mesh (snd entry)) = visible (snd entry)) (devices s)"


text \<open>
  The values on which \<open>(v || '').toLowerCase()\<close> does not throw, a string or a falsy
  value, and the string \<open>v || ''\<close> they stand for.
\<close>

definition stringOrFalsy :: "jsvalue \<Rightarrow> bool" where
  "stringOrFalsy v = (case v of JString s \<Rightarrow> True | _ \<Rightarrow> \<not> truthy v)"

definition textOf :: "jsvalue \<Rightarrow> string" where
  "textOf v = (case v of JString s \<Rightarrow> s | _ \<Rightarrow> [])"

text \<open>\<open>keywords.some(k => s.includes(k))\<close>.\<close>

definition has_any :: "string \<Rightarrow> string list \<Rightarrow> bool" where
  "has_any s keywords = list_ex (str_includes s) keywords"

text \<open>A pair of \<open>loadConnections\<close> both of whose names are registered.\<close>

definition registered :: "DeviceManager \<Rightarrow> string \<Rightarrow> bool" where
  "registered dm name = (map_of (devices dm) (Some name) \<noteq> None)"

definition resolvable :: "DeviceManager \<Rightarrow> connectionInfo \<Rightarrow> bool" where
  "resolvable dm pair = (registered dm (conn_from pair) \<and> registered dm (conn_to pair))"

text \<open>Appending the keys that are new, each at its first occurrence: the key order of a \<open>Map\<close>.\<close>

fun insertKeys :: "'k list \<Rightarrow> 'k list \<Rightarrow> 'k list" where
  "insertKeys ks [] = ks"
| "insertKeys ks (k # rest) = insertKeys (if k \<in> set ks then ks else ks @ [k]) rest"

section \<open>Sample data\<close>

text \<open>A descriptor with a name and a type and nothing else.\<close>

definition descriptor :: "string \<Rightarrow> string \<Rightarrow> deviceInfo" where
  "descriptor n t =
     \<lparr>info_id = None, info_name = Some n, info_type = Some t, info_category = None,
      info_mac = None, info_position = None\<rparr>"

definition positioned :: "string \<Rightarrow> string \<Rightarrow> string \<Rightarrow> real \<Rightarrow> real \<Rightarrow> real \<Rightarrow> deviceInfo" where
  "positioned i n t x y z =
     (descriptor n t)\<lparr>info_id := Some i,
                       info_position := Some (PositionInput (Some x) (Some y) (Some z))\<rparr>"

text \<open>\<open>sampleDevices\<close> and \<open>sampleConnections\<close> of \<open>loadSampleData\<close>.\<close>

definition sampleDevices :: "deviceInfo list" where
  "sampleDevices =
     [positioned ''fw1'' ''FortiGate-100F'' ''firewall'' 0 2 0,
      positioned ''sw1'' ''FortiSwitch-148F'' ''switch'' (- 8) 1 0,
      positioned ''sw2'' ''FortiSwitch-148F'' ''switch'' 8 1 0,
      positioned ''ap1'' ''FortiAP-431F'' ''access_point'' (- 12) 3 5,
      positioned ''ap2'' ''FortiAP-431F'' ''access_point'' 12 3 5]"

definition sampleConnections :: "connectionInfo list" where
  "sampleConnections =
     [\<lparr>conn_from = ''fw1'', conn_to = ''sw1''\<rparr>,
      \<lparr>conn_from = ''fw1'', conn_to = ''sw2''\<rparr>,
      \<lparr>conn_from = ''sw1'', conn_to = ''ap1''\<rparr>,
      \<lparr>conn_from = ''sw2'', conn_to = ''ap2''\<rparr>]"

text \<open>
  Two environments: every asset import resolves, or none does and every builder works.
  The strings of the samples are ASCII, where \<open>toLowerCase\<close> is \<open>asciiLowerCase\<close>.
\<close>

definition assets_present :: env where
  "assets_present =
     \<lparr>importMesh = (\<lambda>_. True), procedural = (\<lambda>_ _. True), toLowerCase = asciiLowerCase\<rparr>"

definition assets_missing :: env where
  "assets_missing =
     \<lparr>importMesh = (\<lambda>_. False), procedural = (\<lambda>_ _. True), toLowerCase = asciiLowerCase\<rparr>"

text \<open>
  A descriptor without a type, and an environment without assets whose builders throw
  on such a descriptor.
\<close>

definition untyped :: "string \<Rightarrow> deviceInfo" where
  "untyped n = (descriptor n [])\<lparr>info_type := None\<rparr>"

definition typed_only :: env where
  "typed_only =
     \<lparr>importMesh = (\<lambda>_. False), procedural = (\<lambda>b d. info_type d \<noteq> None),
      toLowerCase = asciiLowerCase\<rparr>"

text \<open>A registry of two firewalls and three switches.\<close>

definition twoFirewallsThreeSwitches :: DeviceManager where
  "twoFirewallsThreeSwitches =
     loadDevices assets_present
       [descriptor ''fw-a'' ''firewall'', descriptor ''sw-a'' ''switch'',
        descriptor ''fw-b'' ''firewall'', descriptor ''sw-b'' ''switch'',
        descriptor ''sw-c'' ''switch'']
       new_DeviceManager"

text \<open>The positions of the registered devices, in registry order.\<close>

definition devicePositions :: "DeviceManager \<Rightarrow> Vector3 list" where
  "devicePositions s = map (\<lambda>device. position (scene s ! mesh device)) (getAllDevices s)"

section \<open>The grid size\<close>

lemma ceil_sqrt_from_spec:
  "g = 0 \<or> (g - 1) * (g - 1) < n \<Longrightarrow>
   n \<le> ceil_sqrt_from g n * ceil_sqrt_from g n \<and>
   (ceil_sqrt_from g n = 0 \<or> (ceil_sqrt_from g n - 1) * (ceil_sqrt_from g n - 1) < n)"
proof (induction g n rule: ceil_sqrt_from.induct)
  case (1 g n)
  show ?case
  proof (cases "n \<le> g * g")
    case True
    with "1.prems" show ?thesis by (simp add: ceil_sqrt_from.simps [of g n])
  next
    case False
    then have "Suc g = 0 \<or> (Suc g - 1) * (Suc g - 1) < n" by simp
    from "1.IH" [OF False this] False show ?thesis
      by (simp add: ceil_sqrt_from.simps [of g n])
  qed
qed

lemma ceil_sqrt_least:
  "n \<le> ceil_sqrt n * ceil_sqrt n \<and> (ceil_sqrt n = 0 \<or> (ceil_sqrt n - 1) * (ceil_sqrt n - 1) < n)"
  unfolding ceil_sqrt_def by (rule ceil_sqrt_from_spec) simp

text \<open>\<open>ceil_sqrt\<close> is \<open>Math.ceil(Math.sqrt(n))\<close> read over the reals.\<close>

lemma ceil_sqrt_ceiling: "int (ceil_sqrt n) = \<lceil>sqrt (real n)\<rceil>"
proof -
  let ?r = "ceil_sqrt n"
  from ceil_sqrt_least [of n]
  have up: "n \<le> ?r * ?r" and low: "?r = 0 \<or> (?r - 1) * (?r - 1) < n" by simp_all
  have "sqrt (real n) \<le> real ?r"
  proof -
    from up have "real n \<le> real ?r * real ?r" by (metis of_nat_le_iff of_nat_mult)
    then have "real n \<le> (real ?r)\<^sup>2" by (simp add: power2_eq_square)
    then show ?thesis by (simp add: real_le_lsqrt)
  qed
  moreover have "real ?r - 1 < sqrt (real n)"
  proof (cases "?r = 0")
    case True
    have "0 \<le> sqrt (real n)" by simp
    with True show ?thesis by linarith
  next
    case False
    with low have "(?r - 1) * (?r - 1) < n" by simp
    then have "real (?r - 1) * real (?r - 1) < real n" by (metis of_nat_less_iff of_nat_mult)
    then have "(real (?r - 1))\<^sup>2 < real n" by (simp add: power2_eq_square)
    then have "real (?r - 1) < sqrt (real n)" by (simp add: real_less_rsqrt)
    with False show ?thesis by (simp add: of_nat_diff)
  qed
  ultimately have "\<lceil>sqrt (real n)\<rceil> = int ?r"
    by (intro ceiling_unique) simp_all
  then show ?thesis by simp
qed

section \<open>Auto-layout\<close>

text \<open>
  C1.  The claim: the positions \<open>autoPositionDevice\<close> assigns at the insertion indices
  \<open>0..N-1\<close>, with the grid size recomputed per index, are pairwise distinct.  The code
  breaks it at \<open>N = 5\<close>: index 0 is laid out on a grid of size 1 and index 4 on a grid of
  size 3, and both land on \<open>(-2, 1, -2)\<close>.  Loading five descriptors without positions
  (distinct names, all created) registers five devices, the first and the fifth at the
  same position.
\<close>

theorem autoPosition_collision:
  "autoPosition 0 = Vector3 (- 2) 1 (- 2) \<and> autoPosition 4 = Vector3 (- 2) 1 (- 2) \<and>
   \<not> distinct (map autoPosition [0..<5]) \<and>
   (let s = loadDevices assets_missing
              (map (\<lambda>n. descriptor n ''switch'') [''a'', ''b'', ''c'', ''d'', ''e''])
              new_DeviceManager
    in map fst (devices s) = map Some [''a'', ''b'', ''c'', ''d'', ''e''] \<and>
       devicePositions s ! 0 = devicePositions s ! 4 \<and>
       \<not> distinct (devicePositions s))"
  by code_simp

section \<open>Creating a device\<close>


lemma createMesh_SomeD:
  assumes "createMesh e d s = Some (m, s1)"
  shows "m = length (scene s) \<and>
         (\<exists>n. s1 = s\<lparr>scene := scene s @ [n]\<rparr> \<and> enabled n)"
  using assms
  by (auto simp: createMesh_def proceduralModel_def createModelInstance_def add_node_def Let_def
           split: option.splits if_splits sum.splits)

lemma createDevice_failed: "\<not> creationSucceeds e s d \<Longrightarrow> createDevice e d s = s"
  by (cases "createMesh e d s") (simp_all add: createDevice_def creationSucceeds_def)

lemma createDevice_created:
  assumes "creationSucceeds e s d"
  shows "\<exists>n. enabled n \<and> position n = resolvedPosition d (length (devices s)) \<and>
           createDevice e d s =
             s\<lparr>scene := scene s @ [n],
               devices := AList.update (info_name d)
                            \<lparr>mesh = length (scene s), info = d, visible = True\<rparr> (devices s),
               labels := AList.update (info_name d)
                            \<lparr>label_enabled = True, label_parent = length (scene s)\<rparr> (labels s)\<rparr>"
proof -
  from assms obtain m s1 where ms: "createMesh e d s = Some (m, s1)"
    by (cases "createMesh e d s") (auto simp: creationSucceeds_def)
  from createMesh_SomeD [OF ms] obtain n where
    m: "m = length (scene s)" and s1: "s1 = s\<lparr>scene := scene s @ [n]\<rparr>" and en: "enabled n"
    by blast
  let ?n = "n\<lparr>position := resolvedPosition d (length (devices s))\<rparr>"
  have "createDevice e d s =
          s\<lparr>scene := scene s @ [?n],
            devices := AList.update (info_name d)
                         \<lparr>mesh = length (scene s), info = d, visible = True\<rparr> (devices s),
            labels := AList.update (info_name d)
                         \<lparr>label_enabled = True, label_parent = length (scene s)\<rparr> (labels s)\<rparr>"
    by (simp add: createDevice_def ms m s1 setPosition_def autoPositionDevice_def createLabel_def
             resolvedPosition_def split: option.splits)
  moreover have "enabled ?n" using en by simp
  moreover have "position ?n = resolvedPosition d (length (devices s))" by simp
  ultimately show ?thesis by blast
qed

lemma loadDevice_fields:
  "loadDevice d s =
     s\<lparr>scene := scene s @ [\<lparr>node_name = template_str (info_name d),
                               position = Vector3 0 0 0, enabled = True\<rparr>],
       devices := AList.update (info_name d)
                    \<lparr>mesh = length (scene s), info = d, visible = True\<rparr> (devices s),
       labels := AList.update (info_name d)
                    \<lparr>label_enabled = True, label_parent = length (scene s)\<rparr> (labels s)\<rparr>"
  by (simp add: loadDevice_def add_node_def createLabel_def)

text \<open>
  C10.  For a descriptor with an explicit position whose mesh is created, the device is
  registered under its name and the stored position takes each coordinate with a falsy
  default: \<open>x\<close> and \<open>z\<close> are the given values, 0 when absent (a given 0 stays 0);
  \<open>y\<close> is the given value when it is present and not 0, and 1 when it is absent or 0.
\<close>

theorem createDevice_explicit_position:
  assumes "creationSucceeds e s d" and "info_position d = Some p"
  shows "\<exists>dv. map_of (devices (createDevice e d s)) (info_name d) = Some dv \<and>
           info dv = d \<and> mesh dv < length (scene (createDevice e d s)) \<and>
           vx (position (scene (createDevice e d s) ! mesh dv))
             = (case px p of None \<Rightarrow> 0 | Some v \<Rightarrow> v) \<and>
           vy (position (scene (createDevice e d s) ! mesh dv))
             = (case py p of None \<Rightarrow> 1 | Some v \<Rightarrow> if v = 0 then 1 else v) \<and>
           vz (position (scene (createDevice e d s) ! mesh dv))
             = (case pz p of None \<Rightarrow> 0 | Some v \<Rightarrow> v)"
proof -
  from createDevice_created [OF assms(1)] obtain n where
    pos: "position n = resolvedPosition d (length (devices s))" and
    cd: "createDevice e d s =
             s\<lparr>scene := scene s @ [n],
               devices := AList.update (info_name d)
                            \<lparr>mesh = length (scene s), info = d, visible = True\<rparr> (devices s),
               labels := AList.update (info_name d)
                            \<lparr>label_enabled = True, label_parent = length (scene s)\<rparr> (labels s)\<rparr>"
    by blast
  have "position n = explicitPosition p" using pos assms(2) by (simp add: resolvedPosition_def)
  then show ?thesis
    by (simp add: cd update_conv' explicitPosition_def or_default_def split: option.splits)
qed

theorem createDevice_explicit_position_witness:
  "creationSucceeds assets_present new_DeviceManager
     (positioned ''fw1'' ''FortiGate-100F'' ''firewall'' 3 0 0) \<and>
   info_position (positioned ''fw1'' ''FortiGate-100F'' ''firewall'' 3 0 0)
     = Some (PositionInput (Some 3) (Some 0) (Some 0)) \<and>
   (\<exists>dv. map_of (devices (createDevice assets_present
                  (positioned ''fw1'' ''FortiGate-100F'' ''firewall'' 3 0 0) new_DeviceManager))
             (Some ''FortiGate-100F'') = Some dv \<and>
         position (scene (createDevice assets_present
                  (positioned ''fw1'' ''FortiGate-100F'' ''firewall'' 3 0 0) new_DeviceManager)
                   ! mesh dv) = Vector3 3 1 0)"
proof -
  let ?d = "positioned ''fw1'' ''FortiGate-100F'' ''firewall'' 3 0 0"
  have h1: "creationSucceeds assets_present new_DeviceManager ?d"
    unfolding creationSucceeds_def by code_simp
  have h2: "info_position ?d = Some (PositionInput (Some 3) (Some 0) (Some 0))"
    by (simp add: positioned_def descriptor_def)
  have n: "info_name ?d = Some ''FortiGate-100F''"
    by (simp add: positioned_def descriptor_def)
  from createDevice_explicit_position [OF h1 h2] obtain dv where
    dv: "map_of (devices (createDevice assets_present ?d new_DeviceManager)) (info_name ?d) = Some dv"
    and x: "vx (position (scene (createDevice assets_present ?d new_DeviceManager) ! mesh dv)) = 3"
    and y: "vy (position (scene (createDevice assets_present ?d new_DeviceManager) ! mesh dv)) = 1"
    and z: "vz (position (scene (createDevice assets_present ?d new_DeviceManager) ! mesh dv)) = 0"
    by auto
  from x y z have "position (scene (createDevice assets_present ?d new_DeviceManager) ! mesh dv)
                     = Vector3 3 1 0"
    by (cases "position (scene (createDevice assets_present ?d new_DeviceManager) ! mesh dv)") simp
  with dv n h1 h2 show ?thesis by auto
qed

section \<open>Endpoint classification\<close>

lemma matchVendor_table:
  "matchVendor macVendors mac =
     (if list_ex (startsWith mac) [''28:cf:e9'', ''a4:c3:61'', ''40:a6:d9'', ''98:01:a7'']
      then Some ''apple''
      else if list_ex (startsWith mac) [''e8:50:8b'', ''ac:c1:ee'', ''38:b1:db'']
      then Some ''samsung''
      else if list_ex (startsWith mac) [''10:9a:dd'', ''18:03:73'', ''84:2b:2b'']
      then Some ''dell''
      else if list_ex (startsWith mac) [''28:cf:e9'', ''3c:d9:2b'', ''f0:4d:a5'']
      then Some ''hp''
      else if list_ex (startsWith mac) [''70:72:3c'', ''00:1a:6b'', ''f4:ce:46'']
      then Some ''lenovo''
      else None)"
  by (simp add: macVendors_def)

lemma matchVendor_None_iff:
  "matchVendor vs mac = None \<longleftrightarrow>
     \<not> (\<exists>(vendor, ps) \<in> set vs. \<exists>p \<in> set ps. startsWith mac p)"
  by (induction vs mac rule: matchVendor.induct) (auto simp: list_ex_iff)

lemma lowerCased_accepted:
  "stringOrFalsy v \<Longrightarrow> lowerCased e v = Inr (toLowerCase e (textOf v))"
  by (cases v) (auto simp: stringOrFalsy_def lowerCased_def textOf_def truthy_def)

lemma lowerCased_refused: "\<not> stringOrFalsy v \<Longrightarrow> lowerCased e v = Inl TypeError"
  by (cases v) (auto simp: stringOrFalsy_def lowerCased_def truthy_def)

lemma detectEndpointType_accepted:
  "stringOrFalsy name \<Longrightarrow> stringOrFalsy mac \<Longrightarrow>
     detectEndpointType e name mac =
       Inr (case matchVendor macVendors (toLowerCase e (textOf mac)) of
              Some vendor \<Rightarrow> (if vendor = ''apple'' then ''laptop'' else ''desktop'')
            | None \<Rightarrow> detectByName (toLowerCase e (textOf name)))"
  by (simp add: detectEndpointType_def lowerCased_accepted)

lemma detectEndpointType_property:
  "\<exists>t. detectEndpointType e (property n) (property m) = Inr t"
  by (cases n; cases m)
     (simp_all add: detectEndpointType_accepted stringOrFalsy_def property_def truthy_def)

text \<open>
  C6, as the claim states it, fails: \<open>detectEndpointType\<close> is not total.  A name or a
  hardware address that is truthy and not a string (a number, \<open>true\<close>, an object, all
  of them values a JSON document can hold) has no \<open>toLowerCase\<close>, and the call throws.
\<close>

theorem detectEndpointType_throws:
  "detectEndpointType assets_present (JNumber 42) JUndefined = Inl TypeError \<and>
   detectEndpointType assets_present (JString ''office-pc'') (JBoolean True) = Inl TypeError \<and>
   \<not> (\<exists>t. detectEndpointType assets_present (JNumber 42) JUndefined = Inr t)"
  by (simp add: detectEndpointType_def lowerCased_def truthy_def)

text \<open>
  C6, amended.  \<open>detectEndpointType\<close> is a function of the name and the hardware address
  (the same two values give the same result).  When each of the two is a string or a
  falsy value (an absent one counts as the empty string) it returns one of the three
  subtypes; when one of them is a truthy value that is not a string it throws a
  \<open>TypeError\<close>.  Where it returns, the result is determined by the lower-cased name and
  address alone (so it is the same for inputs that differ in letter case only); an
  address that starts with a vendor prefix decides the subtype whatever the name says
  (an Apple prefix gives laptop, a prefix of another vendor only gives desktop); without
  a vendor prefix the name keywords decide, laptop keywords before desktop keywords
  before mobile keywords; and without any keyword the subtype is desktop.  This holds for
  every \<open>toLowerCase\<close>.
\<close>

theorem detectEndpointType_priority:
  fixes e :: env and name mac name' mac' :: jsvalue
  defines "lname \<equiv> toLowerCase e (textOf name)"
      and "lmac \<equiv> toLowerCase e (textOf mac)"
  shows
  "(stringOrFalsy name \<and> stringOrFalsy mac \<longrightarrow>
      (\<exists>t \<in> {''laptop'', ''desktop'', ''mobile''}. detectEndpointType e name mac = Inr t)) \<and>
   (\<not> (stringOrFalsy name \<and> stringOrFalsy mac) \<longrightarrow>
      detectEndpointType e name mac = Inl TypeError) \<and>
   (stringOrFalsy name \<and> stringOrFalsy mac \<and> stringOrFalsy name' \<and> stringOrFalsy mac' \<and>
    toLowerCase e (textOf name') = lname \<and> toLowerCase e (textOf mac') = lmac
      \<longrightarrow> detectEndpointType e name' mac' = detectEndpointType e name mac) \<and>
   (stringOrFalsy name \<and> stringOrFalsy mac \<and>
    (\<exists>p \<in> set [''28:cf:e9'', ''a4:c3:61'', ''40:a6:d9'', ''98:01:a7'']. startsWith lmac p)
      \<longrightarrow> detectEndpointType e name mac = Inr ''laptop'') \<and>
   (stringOrFalsy name \<and> stringOrFalsy mac \<and>
    (\<exists>(vendor, ps) \<in> set macVendors. \<exists>p \<in> set ps. startsWith lmac p) \<and>
    \<not> (\<exists>p \<in> set [''28:cf:e9'', ''a4:c3:61'', ''40:a6:d9'', ''98:01:a7'']. startsWith lmac p)
      \<longrightarrow> detectEndpointType e name mac = Inr ''desktop'') \<and>
   (stringOrFalsy name \<and> stringOrFalsy mac \<and>
    \<not> (\<exists>(vendor, ps) \<in> set macVendors. \<exists>p \<in> set ps. startsWith lmac p) \<longrightarrow>
      detectEndpointType e name mac =
        Inr (if has_any lname [''laptop'', ''notebook'', ''macbook''] then ''laptop''
             else if has_any lname [''desktop'', ''pc'', ''tower''] then ''desktop''
             else if has_any lname [''phone'', ''mobile'', ''iphone'', ''android''] then ''mobile''
             else ''desktop''))"
proof (intro conjI impI)
  assume "stringOrFalsy name \<and> stringOrFalsy mac"
  then show "\<exists>t \<in> {''laptop'', ''desktop'', ''mobile''}. detectEndpointType e name mac = Inr t"
    by (simp add: detectEndpointType_accepted detectByName_def split: option.splits)
next
  assume "\<not> (stringOrFalsy name \<and> stringOrFalsy mac)"
  then consider "\<not> stringOrFalsy name" | "stringOrFalsy name" "\<not> stringOrFalsy mac" by blast
  then show "detectEndpointType e name mac = Inl TypeError"
  proof cases
    case 1
    then show ?thesis by (simp add: detectEndpointType_def lowerCased_refused)
  next
    case 2
    then show ?thesis
      by (simp add: detectEndpointType_def lowerCased_refused lowerCased_accepted)
  qed
next
  assume "stringOrFalsy name \<and> stringOrFalsy mac \<and> stringOrFalsy name' \<and> stringOrFalsy mac' \<and>
    toLowerCase e (textOf name') = lname \<and> toLowerCase e (textOf mac') = lmac"
  then show "detectEndpointType e name' mac' = detectEndpointType e name mac"
    by (simp add: detectEndpointType_accepted lname_def lmac_def split: option.splits)
next
  assume a: "stringOrFalsy name \<and> stringOrFalsy mac \<and>
    (\<exists>p \<in> set [''28:cf:e9'', ''a4:c3:61'', ''40:a6:d9'', ''98:01:a7'']. startsWith lmac p)"
  then have "matchVendor macVendors lmac = Some ''apple''"
    by (simp add: matchVendor_table)
  with a show "detectEndpointType e name mac = Inr ''laptop''"
    by (simp add: detectEndpointType_accepted lmac_def [symmetric])
next
  assume a: "stringOrFalsy name \<and> stringOrFalsy mac \<and>
    (\<exists>(vendor, ps) \<in> set macVendors. \<exists>p \<in> set ps. startsWith lmac p) \<and>
    \<not> (\<exists>p \<in> set [''28:cf:e9'', ''a4:c3:61'', ''40:a6:d9'', ''98:01:a7'']. startsWith lmac p)"
  then have "matchVendor macVendors lmac \<noteq> None" by (simp add: matchVendor_None_iff)
  moreover from a have "matchVendor macVendors lmac \<noteq> Some ''apple''"
    by (simp add: matchVendor_table)
  ultimately obtain v where "matchVendor macVendors lmac = Some v" "v \<noteq> ''apple''" by auto
  with a show "detectEndpointType e name mac = Inr ''desktop''"
    by (simp add: detectEndpointType_accepted lmac_def [symmetric])
next
  assume a: "stringOrFalsy name \<and> stringOrFalsy mac \<and>
    \<not> (\<exists>(vendor, ps) \<in> set macVendors. \<exists>p \<in> set ps. startsWith lmac p)"
  then have "matchVendor macVendors lmac = None" by (simp add: matchVendor_None_iff)
  with a show "detectEndpointType e name mac =
        Inr (if has_any lname [''laptop'', ''notebook'', ''macbook''] then ''laptop''
             else if has_any lname [''desktop'', ''pc'', ''tower''] then ''desktop''
             else if has_any lname [''phone'', ''mobile'', ''iphone'', ''android''] then ''mobile''
             else ''desktop'')"
    by (simp add: detectEndpointType_accepted lmac_def [symmetric] lname_def [symmetric]
          detectByName_def has_any_def)
qed

text \<open>
  An endpoint named like a phone with an Apple hardware address in upper case is a laptop,
  and so is its lower-case spelling; with a Samsung address it is a desktop; without an
  address the name makes it mobile; with the number 7 for an address the call throws.
\<close>

theorem detectEndpointType_priority_witness:
  "stringOrFalsy (JString ''Android-Phone'') \<and> stringOrFalsy (JString ''28:CF:E9:12:34:56'') \<and>
   stringOrFalsy JUndefined \<and> \<not> stringOrFalsy (JNumber 7) \<and>
   detectEndpointType assets_present (JString ''Android-Phone'') (JString ''28:CF:E9:12:34:56'')
     = Inr ''laptop'' \<and>
   detectEndpointType assets_present (JString ''android-phone'') (JString ''28:cf:e9:12:34:56'')
     = Inr ''laptop'' \<and>
   detectEndpointType assets_present (JString ''Android-Phone'') (JString ''E8:50:8B:12:34:56'')
     = Inr ''desktop'' \<and>
   detectEndpointType assets_present (JString ''Android-Phone'') JUndefined = Inr ''mobile'' \<and>
   detectEndpointType assets_present (JString ''Android-Phone'') (JNumber 7) = Inl TypeError"
proof -
  let ?e = assets_present
  let ?n = "JString ''Android-Phone''" and ?n' = "JString ''android-phone''"
  let ?a = "JString ''28:CF:E9:12:34:56''" and ?a' = "JString ''28:cf:e9:12:34:56''"
  let ?g = "JString ''E8:50:8B:12:34:56''"
  have s: "stringOrFalsy ?n" "stringOrFalsy ?a" "stringOrFalsy ?n'" "stringOrFalsy ?a'"
      "stringOrFalsy ?g" "stringOrFalsy JUndefined"
    by (simp_all add: stringOrFalsy_def truthy_def)
  have r: "\<not> stringOrFalsy (JNumber 7)"
    by (simp add: stringOrFalsy_def truthy_def)
  have h: "\<exists>p \<in> set [''28:cf:e9'', ''a4:c3:61'', ''40:a6:d9'', ''98:01:a7''].
             startsWith (toLowerCase ?e (textOf ?a)) p"
    by code_simp
  have c: "toLowerCase ?e (textOf ?n') = toLowerCase ?e (textOf ?n) \<and>
           toLowerCase ?e (textOf ?a') = toLowerCase ?e (textOf ?a)"
    by code_simp
  have hs: "(\<exists>(vendor, ps) \<in> set macVendors. \<exists>p \<in> set ps.
               startsWith (toLowerCase ?e (textOf ?g)) p) \<and>
            \<not> (\<exists>p \<in> set [''28:cf:e9'', ''a4:c3:61'', ''40:a6:d9'', ''98:01:a7''].
                 startsWith (toLowerCase ?e (textOf ?g)) p)"
    by code_simp
  have hn: "\<not> (\<exists>(vendor, ps) \<in> set macVendors. \<exists>p \<in> set ps.
               startsWith (toLowerCase ?e (textOf JUndefined)) p)"
    by code_simp
  have k: "Inr (if has_any (toLowerCase ?e (textOf ?n)) [''laptop'', ''notebook'', ''macbook'']
            then ''laptop''
            else if has_any (toLowerCase ?e (textOf ?n)) [''desktop'', ''pc'', ''tower'']
            then ''desktop''
            else if has_any (toLowerCase ?e (textOf ?n))
                      [''phone'', ''mobile'', ''iphone'', ''android'']
            then ''mobile'' else ''desktop'') = (Inr ''mobile'' :: error + string)"
    by code_simp
  from detectEndpointType_priority [of ?n ?a ?e ?n' ?a'] s h
  have 1: "detectEndpointType ?e ?n ?a = Inr ''laptop''" by blast
  from detectEndpointType_priority [of ?n ?a ?e ?n' ?a'] s c
  have "detectEndpointType ?e ?n' ?a' = detectEndpointType ?e ?n ?a" by blast
  then have 2: "detectEndpointType ?e ?n' ?a' = Inr ''laptop''" using 1 by (rule trans)
  from detectEndpointType_priority [of ?n ?g ?e ?n ?g] s hs
  have 3: "detectEndpointType ?e ?n ?g = Inr ''desktop''" by blast
  from detectEndpointType_priority [of ?n JUndefined ?e ?n JUndefined] s hn
  have "detectEndpointType ?e ?n JUndefined =
          Inr (if has_any (toLowerCase ?e (textOf ?n)) [''laptop'', ''notebook'', ''macbook'']
            then ''laptop''
            else if has_any (toLowerCase ?e (textOf ?n)) [''desktop'', ''pc'', ''tower'']
            then ''desktop''
            else if has_any (toLowerCase ?e (textOf ?n))
                      [''phone'', ''mobile'', ''iphone'', ''android'']
            then ''mobile'' else ''desktop'')" by blast
  then have 4: "detectEndpointType ?e ?n JUndefined = Inr ''mobile''" using k by (rule trans)
  from detectEndpointType_priority [of ?n "JNumber 7" ?e ?n "JNumber 7"] r
  have 5: "detectEndpointType ?e ?n (JNumber 7) = Inl TypeError" by blast
  from s(1,2,6) r 1 2 3 4 5 show ?thesis by blast
qed

section \<open>Connections\<close>

text \<open>
  C9.  \<open>createConnection\<close> adds one connection whose line is the three-point polyline
  from the position of the first mesh over the midpoint (the mean of the two \<open>x\<close> and of
  the two \<open>z\<close> coordinates, at the fixed height \<open>0.1\<close>) to the position of the second
  mesh.  The polyline is \<open>linePoints\<close> of the two positions and of nothing else: the same
  two positions give the same polyline whatever the other fields of the meshes and
  whatever the manager holds, so recomputing it changes nothing.
\<close>

theorem createConnection_geometry:
  "connections (createConnection mesh1 mesh2 cm) =
     connections cm @ [last (connections (createConnection mesh1 mesh2 cm))] \<and>
   line (last (connections (createConnection mesh1 mesh2 cm))) =
     [position mesh1,
      Vector3 ((vx (position mesh1) + vx (position mesh2)) / 2) (1 / 10)
              ((vz (position mesh1) + vz (position mesh2)) / 2),
      position mesh2] \<and>
   line (last (connections (createConnection mesh1 mesh2 cm))) =
     linePoints (position mesh1) (position mesh2) \<and>
   line (last (connections (createConnection
           (mesh1\<lparr>node_name := n1, enabled := b1\<rparr>) (mesh2\<lparr>node_name := n2, enabled := b2\<rparr>) cm'))) =
     line (last (connections (createConnection mesh1 mesh2 cm)))"
  by (simp add: createConnection_def linePoints_def)

text \<open>The count of \<open>loadConnections\<close> and the connections it appends, in closed form.\<close>

lemma loadConnections_connections:
  "connections (loadConnections dm pairs cm) =
     connections cm @
     map (\<lambda>pair. \<lparr>conn_mesh1 = the (resolveDevice dm (conn_from pair)),
                   conn_mesh2 = the (resolveDevice dm (conn_to pair)),
                   line = linePoints (position (the (resolveDevice dm (conn_from pair))))
                                     (position (the (resolveDevice dm (conn_to pair)))),
                   line_enabled = True, conn_visible = True\<rparr>)
         (filter (resolvable dm) pairs)"
proof (induction pairs arbitrary: cm)
  case Nil
  show ?case by simp
next
  case (Cons pair rest)
  show ?case
    by (simp add: Cons.IH resolvable_def registered_def resolveDevice_def createConnection_def
             split: option.splits)
qed

text \<open>
  C7.  \<open>loadConnections\<close> skips a pair one of whose names is not registered and makes
  one connection for every pair both of whose names are registered, in input order;
  afterwards \<open>getConnectionCount\<close> has grown by the number of resolvable pairs, and on a
  new connection manager it is that number.
\<close>

theorem loadConnections_count:
  "getConnectionCount (loadConnections dm pairs cm) =
     getConnectionCount cm + length (filter (resolvable dm) pairs) \<and>
   getConnectionCount (loadConnections dm pairs new_ConnectionManager) =
     length (filter (resolvable dm) pairs) \<and>
   map (\<lambda>c. (conn_mesh1 c, conn_mesh2 c)) (drop (length (connections cm))
       (connections (loadConnections dm pairs cm))) =
     map (\<lambda>pair. (the (resolveDevice dm (conn_from pair)), the (resolveDevice dm (conn_to pair))))
       (filter (resolvable dm) pairs) \<and>
   loadConnections dm (filter (resolvable dm) pairs) cm = loadConnections dm pairs cm"
proof -
  have "connections (loadConnections dm (filter (resolvable dm) pairs) cm)
          = connections (loadConnections dm pairs cm)"
    by (simp add: loadConnections_connections)
  moreover have "cm_visible (loadConnections dm ps c) = cm_visible c" for ps c
    by (induction ps arbitrary: c)
       (simp_all add: createConnection_def split: option.splits)
  ultimately have "loadConnections dm (filter (resolvable dm) pairs) cm = loadConnections dm pairs cm"
    by (intro ConnectionManager.equality) simp_all
  then show ?thesis
    by (simp add: getConnectionCount_def loadConnections_connections new_ConnectionManager_def
          comp_def)
qed

text \<open>The code's own sample: the pairs name device ids, the registry is keyed by device name.\<close>

lemma sample_connections_by_name:
  "getConnectionCount
     (loadConnections (loadDevices assets_present sampleDevices new_DeviceManager)
        sampleConnections new_ConnectionManager) = 0 \<and>
   getConnectionCount
     (loadConnections (loadDevices assets_present sampleDevices new_DeviceManager)
        [\<lparr>conn_from = ''FortiGate-100F'', conn_to = ''FortiSwitch-148F''\<rparr>,
         \<lparr>conn_from = ''FortiGate-100F'', conn_to = ''sw9''\<rparr>,
         \<lparr>conn_from = ''FortiSwitch-148F'', conn_to = ''FortiAP-431F''\<rparr>]
        new_ConnectionManager) = 2"
  by code_simp

section \<open>Filtering by category\<close>

lemma filterEach_devices:
  "fst (filterEach showAll categories es sc ls) =
     map (\<lambda>(name, device).
            (name, device\<lparr>visible := (showAll \<or> categories_include categories (info_type (info device)))\<rparr>))
         es"
  by (induction es arbitrary: sc ls) (auto simp: Let_def split_beta)

lemma filterEach_category_devices:
  "fst (filterEach_category showAll categories es sc ls) =
     map (\<lambda>(name, device).
            (name, device\<lparr>visible := (showAll \<or> categories_include categories (info_category (info device)))\<rparr>))
         es"
  by (induction es arbitrary: sc ls) (auto simp: Let_def split_beta)

lemma devices_filterByCategories:
  "devices (filterByCategories categories s) =
     map (\<lambda>(name, device).
            (name, device\<lparr>visible := (''all'' \<in> set categories \<or>
                               categories_include categories (info_type (info device)))\<rparr>))
         (devices s)"
  using filterEach_devices [of "''all'' \<in> set categories" categories "devices s" "scene s" "labels s"]
  by (simp add: filterByCategories_def Let_def split_beta)

lemma devices_filterByCategories_category:
  "devices (filterByCategories_category categories s) =
     map (\<lambda>(name, device).
            (name, device\<lparr>visible := (''all'' \<in> set categories \<or>
                               categories_include categories (info_category (info device)))\<rparr>))
         (devices s)"
  using filterEach_category_devices
          [of "''all'' \<in> set categories" categories "devices s" "scene s" "labels s"]
  by (simp add: filterByCategories_category_def Let_def split_beta)

lemma getVisibleDeviceCount_filterByCategories:
  "getVisibleDeviceCount (filterByCategories categories s) =
     length (filter (\<lambda>device. ''all'' \<in> set categories \<or>
                               categories_include categories (info_type (info device)))
               (getAllDevices s))"
  by (simp add: getVisibleDeviceCount_def getAllDevices_def devices_filterByCategories
        filter_map comp_def split_beta)

lemma categories_include_single: "categories_include [c] v = (v = Some c)"
  by (cases v) (auto simp: categories_include_def)

text \<open>
  C2.  After \<open>filterByCategories selected\<close> the registry has the same names and
  descriptors in the same order; when \<open>selected\<close> contains \<open>all\<close> every device is
  visible, and otherwise a device is visible exactly when its type is one of the selected
  strings (a device without a type is hidden).  The older class does the same on the
  \<open>category\<close> field.  Selecting \<open>firewall\<close> alone leaves as many devices visible as there
  are firewalls: 2 on a registry of two firewalls and three switches.
\<close>

theorem filterByCategories_visible:
  "map (\<lambda>(name, device). (name, info device)) (devices (filterByCategories selected s)) =
     map (\<lambda>(name, device). (name, info device)) (devices s) \<and>
   (''all'' \<in> set selected \<longrightarrow>
      (\<forall>device \<in> set (getAllDevices (filterByCategories selected s)). visible device)) \<and>
   (''all'' \<notin> set selected \<longrightarrow>
      (\<forall>device \<in> set (getAllDevices (filterByCategories selected s)).
         visible device \<longleftrightarrow> (\<exists>t \<in> set selected. info_type (info device) = Some t))) \<and>
   (''all'' \<in> set selected \<longrightarrow>
      (\<forall>device \<in> set (getAllDevices (filterByCategories_category selected s)). visible device)) \<and>
   (''all'' \<notin> set selected \<longrightarrow>
      (\<forall>device \<in> set (getAllDevices (filterByCategories_category selected s)).
         visible device \<longleftrightarrow> (\<exists>t \<in> set selected. info_category (info device) = Some t))) \<and>
   getVisibleDeviceCount (filterByCategories [''firewall''] s) =
     length (getDevicesByCategory ''firewall'' s)"
proof (intro conjI impI)
  show "map (\<lambda>(name, device). (name, info device)) (devices (filterByCategories selected s)) =
     map (\<lambda>(name, device). (name, info device)) (devices s)"
    by (simp add: devices_filterByCategories split_beta comp_def)
next
  assume "''all'' \<in> set selected"
  then show "\<forall>device \<in> set (getAllDevices (filterByCategories selected s)). visible device"
    by (auto simp: getAllDevices_def devices_filterByCategories)
next
  assume "''all'' \<notin> set selected"
  then show "\<forall>device \<in> set (getAllDevices (filterByCategories selected s)).
         visible device \<longleftrightarrow> (\<exists>t \<in> set selected. info_type (info device) = Some t)"
    by (auto simp: getAllDevices_def devices_filterByCategories categories_include_def
             split: option.splits)
next
  assume "''all'' \<in> set selected"
  then show "\<forall>device \<in> set (getAllDevices (filterByCategories_category selected s)). visible device"
    by (auto simp: getAllDevices_def devices_filterByCategories_category)
next
  assume "''all'' \<notin> set selected"
  then show "\<forall>device \<in> set (getAllDevices (filterByCategories_category selected s)).
         visible device \<longleftrightarrow> (\<exists>t \<in> set selected. info_category (info device) = Some t)"
    by (auto simp: getAllDevices_def devices_filterByCategories_category categories_include_def
             split: option.splits)
next
  have "filter (\<lambda>device. ''all'' \<in> set [''firewall''] \<or>
                    categories_include [''firewall''] (info_type (info device))) (getAllDevices s)
          = getDevicesByCategory ''firewall'' s"
    by (simp add: categories_include_single getDevicesByCategory_def)
  then show "getVisibleDeviceCount (filterByCategories [''firewall''] s) =
     length (getDevicesByCategory ''firewall'' s)"
    by (simp only: getVisibleDeviceCount_filterByCategories)
qed

theorem filterByCategories_visible_witness:
  "''all'' \<notin> set [''firewall''] \<and> ''all'' \<in> set [''switch'', ''all''] \<and>
   map (\<lambda>device. info_type (info device)) (getAllDevices twoFirewallsThreeSwitches) =
     [Some ''firewall'', Some ''switch'', Some ''firewall'', Some ''switch'', Some ''switch''] \<and>
   getVisibleDeviceCount (filterByCategories [''firewall''] twoFirewallsThreeSwitches) = 2 \<and>
   map visible (getAllDevices (filterByCategories [''firewall''] twoFirewallsThreeSwitches)) =
     [True, False, True, False, False] \<and>
   list_all visible
     (getAllDevices (filterByCategories [''switch'', ''all'']
        (filterByCategories [''firewall''] twoFirewallsThreeSwitches)))"
proof -
  let ?s = twoFirewallsThreeSwitches
  have n: "''all'' \<notin> set [''firewall'']" and y: "''all'' \<in> set [''switch'', ''all'']"
    by simp_all
  have t: "map (\<lambda>device. info_type (info device)) (getAllDevices ?s) =
     [Some ''firewall'', Some ''switch'', Some ''firewall'', Some ''switch'', Some ''switch'']"
    by code_simp
  have two: "length (getDevicesByCategory ''firewall'' ?s) = 2"
    by code_simp
  have v: "map visible (getAllDevices (filterByCategories [''firewall''] ?s)) =
     [True, False, True, False, False]"
    by code_simp
  from filterByCategories_visible [of "[''firewall'']" ?s] two
  have c: "getVisibleDeviceCount (filterByCategories [''firewall''] ?s) = 2"
    by presburger
  from filterByCategories_visible [of "[''switch'', ''all'']" "filterByCategories [''firewall''] ?s"] y
  have "\<forall>device \<in> set (getAllDevices (filterByCategories [''switch'', ''all'']
          (filterByCategories [''firewall''] ?s))). visible device"
    by blast
  then have a: "list_all visible (getAllDevices (filterByCategories [''switch'', ''all'']
          (filterByCategories [''firewall''] ?s)))"
    by (simp add: list_all_iff)
  from n y t c v a show ?thesis by blast
qed

section \<open>Association lists and the scene\<close>

lemma set_update_cases:
  "distinct (map fst al) \<Longrightarrow> (a, b) \<in> set (AList.update k v al) \<Longrightarrow>
     (a = k \<and> b = v) \<or> ((a, b) \<in> set al \<and> a \<noteq> k)"
  by (induction al) (force split: if_splits)+

lemma length_setEnabled [simp]: "length (setEnabled r v sc) = length sc"
  by (simp add: setEnabled_def)

lemma enabled_setEnabled_same: "r < length sc \<Longrightarrow> enabled (setEnabled r v sc ! r) = v"
  by (simp add: setEnabled_def)

lemma nth_setEnabled_other: "r' \<noteq> r \<Longrightarrow> setEnabled r v sc ! r' = sc ! r'"
  by (simp add: setEnabled_def)

lemma labelSetEnabled_keys [simp]: "map fst (labelSetEnabled name v ls) = map fst ls"
proof (cases "map_of ls name")
  case None
  then show ?thesis by (simp add: labelSetEnabled_def)
next
  case (Some lbl)
  then have "name \<in> set (map fst ls)" by (metis map_of_eq_None_iff option.distinct(1) set_map)
  with Some show ?thesis by (simp add: labelSetEnabled_def update_keys)
qed

lemma labelSetEnabled_cases:
  assumes "distinct (map fst ls)" and "(n, l) \<in> set (labelSetEnabled name v ls)"
  shows "(n \<noteq> name \<and> (n, l) \<in> set ls) \<or>
         (n = name \<and> (\<exists>l0. map_of ls name = Some l0 \<and> l = l0\<lparr>label_enabled := v l0\<rparr>))"
proof (cases "map_of ls name")
  case None
  then have "name \<notin> fst ` set ls" by (simp add: map_of_eq_None_iff)
  with assms None show ?thesis by (force simp: labelSetEnabled_def)
next
  case (Some l0)
  with assms have "(n, l) \<in> set (AList.update name (l0\<lparr>label_enabled := v l0\<rparr>) ls)"
    by (simp add: labelSetEnabled_def)
  from set_update_cases [OF assms(1) this] Some show ?thesis by auto
qed

lemma labelSetEnabled_parents:
  "map (\<lambda>entry. (fst entry, label_parent (snd entry))) (labelSetEnabled name v ls) =
   map (\<lambda>entry. (fst entry, label_parent (snd entry))) ls"
proof (cases "map_of ls name")
  case None
  then show ?thesis by (simp add: labelSetEnabled_def)
next
  case (Some l0)
  have "map_of xs name = Some l0 \<Longrightarrow>
        map (\<lambda>entry. (fst entry, label_parent (snd entry)))
            (AList.update name (l0\<lparr>label_enabled := b\<rparr>) xs) =
        map (\<lambda>entry. (fst entry, label_parent (snd entry))) xs" for xs b
    by (induction xs) (auto split: if_splits)
  with Some show ?thesis by (simp add: labelSetEnabled_def)
qed

section \<open>The loop of filterByCategories\<close>

lemma filterEach_Cons_snd:
  "snd (filterEach showAll categories ((name, device) # rest) sc ls) =
     snd (filterEach showAll categories rest
            (setEnabled (mesh device)
               (showAll \<or> categories_include categories (info_type (info device))) sc)
            (labelSetEnabled name
               (\<lambda>lbl. (showAll \<or> categories_include categories (info_type (info device))) \<and>
                      isEnabled_member
                        (setEnabled (mesh device)
                           (showAll \<or> categories_include categories (info_type (info device))) sc
                         ! label_parent lbl)) ls))"
  by (simp add: Let_def split_beta)

lemma filterEach_shape:
  "length (fst (snd (filterEach showAll categories es sc ls))) = length sc \<and>
   map (\<lambda>entry. (fst entry, label_parent (snd entry)))
       (snd (snd (filterEach showAll categories es sc ls))) =
   map (\<lambda>entry. (fst entry, label_parent (snd entry))) ls"
proof (induction es arbitrary: sc ls)
  case Nil
  show ?case by simp
next
  case (Cons e es)
  obtain name device where e: "e = (name, device)" by (cases e)
  show ?case
    unfolding e filterEach_Cons_snd
    by (simp add: Cons.IH labelSetEnabled_parents)
qed

section \<open>The registry keeps its shape\<close>

lemma filterByCategories_fields:
  "filterByCategories categories s =
     s\<lparr>devices := fst (filterEach (''all'' \<in> set categories) categories
                        (devices s) (scene s) (labels s)),
       scene := fst (snd (filterEach (''all'' \<in> set categories) categories
                        (devices s) (scene s) (labels s))),
       labels := snd (snd (filterEach (''all'' \<in> set categories) categories
                        (devices s) (scene s) (labels s)))\<rparr>"
  by (simp add: filterByCategories_def Let_def split_beta)

lemma filterEach_label_keys:
  "map fst (snd (snd (filterEach showAll categories es sc ls))) = map fst ls"
proof -
  have "map fst (map (\<lambda>entry. (fst entry, label_parent (snd entry)))
                  (snd (snd (filterEach showAll categories es sc ls)))) =
        map fst (map (\<lambda>entry. (fst entry, label_parent (snd entry))) ls)"
    by (simp only: filterEach_shape)
  then show ?thesis by (simp add: comp_def)
qed

lemma filterEach_label_parent:
  assumes "entry \<in> set (snd (snd (filterEach showAll categories es sc ls)))"
  shows "\<exists>entry0 \<in> set ls. fst entry0 = fst entry \<and>
           label_parent (snd entry0) = label_parent (snd entry)"
proof -
  from assms have "(fst entry, label_parent (snd entry)) \<in>
      set (map (\<lambda>entry. (fst entry, label_parent (snd entry)))
             (snd (snd (filterEach showAll categories es sc ls))))"
    by force
  then have "(fst entry, label_parent (snd entry)) \<in>
      set (map (\<lambda>entry. (fst entry, label_parent (snd entry))) ls)"
    by (simp only: filterEach_shape)
  then obtain entry0 where "entry0 \<in> set ls"
      "(fst entry0, label_parent (snd entry0)) = (fst entry, label_parent (snd entry))"
    by auto
  then show ?thesis by (intro bexI [of _ entry0]) simp_all
qed

lemma registry_wf_filterByCategories:
  assumes "registry_wf s"
  shows "registry_wf (filterByCategories categories s)"
proof -
  let ?s' = "filterByCategories categories s"
  have dev: "devices ?s' =
     map (\<lambda>(name, device).
            (name, device\<lparr>visible := (''all'' \<in> set categories \<or>
                               categories_include categories (info_type (info device)))\<rparr>))
         (devices s)"
    by (rule devices_filterByCategories)
  have keys: "map fst (devices ?s') = map fst (devices s)"
    by (simp add: dev comp_def split_beta)
  have meshes: "map (\<lambda>entry. mesh (snd entry)) (devices ?s') =
                map (\<lambda>entry. mesh (snd entry)) (devices s)"
    by (simp add: dev comp_def split_beta)
  have len: "length (scene ?s') = length (scene s)"
    by (simp add: filterByCategories_fields filterEach_shape)
  have lkeys: "map fst (labels ?s') = map fst (labels s)"
    by (simp add: filterByCategories_fields filterEach_label_keys)
  have look: "\<exists>d'. map_of (devices ?s') n = Some d' \<and> mesh d' = mesh d"
    if "map_of (devices s) n = Some d" for n d
    using that by (simp add: dev map_of_map)
  have "list_all (\<lambda>entry. mesh (snd entry) < length (scene ?s')) (devices ?s')"
  proof -
    from assms have "list_all (\<lambda>m. m < length (scene s))
                       (map (\<lambda>entry. mesh (snd entry)) (devices s))"
      by (simp add: registry_wf_def list_all_iff)
    then have "list_all (\<lambda>m. m < length (scene ?s'))
                       (map (\<lambda>entry. mesh (snd entry)) (devices ?s'))"
      by (simp only: meshes len)
    then show ?thesis by (simp add: list_all_iff)
  qed
  moreover have "list_all (labelOnItsDevice ?s') (labels ?s')"
    unfolding list_all_iff
  proof
    fix entry assume "entry \<in> set (labels ?s')"
    then have "entry \<in> set (snd (snd (filterEach (''all'' \<in> set categories) categories
                        (devices s) (scene s) (labels s))))"
      by (simp add: filterByCategories_fields)
    from filterEach_label_parent [OF this] obtain entry0 where
      e0: "entry0 \<in> set (labels s)" "fst entry0 = fst entry"
          "label_parent (snd entry0) = label_parent (snd entry)"
      by blast
    from assms e0(1) have "labelOnItsDevice s entry0"
      by (simp add: registry_wf_def list_all_iff)
    then obtain d where d: "map_of (devices s) (fst entry0) = Some d"
                           "label_parent (snd entry0) = mesh d"
      by (auto simp: labelOnItsDevice_def split: option.splits)
    from look [OF d(1)] obtain d' where
      "map_of (devices ?s') (fst entry0) = Some d'" "mesh d' = mesh d" by blast
    with d(2) e0(2,3) show "labelOnItsDevice ?s' entry"
      by (simp add: labelOnItsDevice_def)
  qed
  ultimately show ?thesis
    using assms by (simp add: registry_wf_def keys meshes lkeys del: map_map)
qed

lemma registry_wf_toggleLabels:
  assumes "registry_wf s"
  shows "registry_wf (toggleLabels v s)"
proof -
  have keys: "map fst (labels (toggleLabels v s)) = map fst (labels s)"
    by (simp add: toggleLabels_def comp_def split_beta)
  have same: "devices (toggleLabels v s) = devices s" "scene (toggleLabels v s) = scene s"
    by (simp_all add: toggleLabels_def)
  have "labelOnItsDevice (toggleLabels v s) entry" if "entry \<in> set (labels (toggleLabels v s))"
    for entry
  proof -
    from that obtain entry0 where "entry0 \<in> set (labels s)" "fst entry = fst entry0"
        "label_parent (snd entry) = label_parent (snd entry0)"
      by (auto simp: toggleLabels_def)
    moreover from this(1) assms have "labelOnItsDevice s entry0"
      by (simp add: registry_wf_def list_all_iff)
    ultimately show ?thesis by (simp add: labelOnItsDevice_def same split: option.splits)
  qed
  then have "list_all (labelOnItsDevice (toggleLabels v s)) (labels (toggleLabels v s))"
    by (simp add: list_all_iff)
  with assms show ?thesis by (simp add: registry_wf_def keys same)
qed

section \<open>The older filterByCategories\<close>

lemma filterEach_category_Cons_snd:
  "snd (filterEach_category showAll categories ((name, device) # rest) sc ls) =
     snd (filterEach_category showAll categories rest
            (setEnabled (mesh device)
               (showAll \<or> categories_include categories (info_category (info device))) sc)
            (labelSetEnabled name
               (\<lambda>lbl. showAll \<or> categories_include categories (info_category (info device)))
               ls))"
  by (simp add: Let_def split_beta)

lemma filterEach_category_shape:
  "length (fst (snd (filterEach_category showAll categories es sc ls))) = length sc \<and>
   map (\<lambda>entry. (fst entry, label_parent (snd entry)))
       (snd (snd (filterEach_category showAll categories es sc ls))) =
   map (\<lambda>entry. (fst entry, label_parent (snd entry))) ls"
proof (induction es arbitrary: sc ls)
  case Nil
  show ?case by simp
next
  case (Cons e es)
  obtain name device where e: "e = (name, device)" by (cases e)
  show ?case
    unfolding e filterEach_category_Cons_snd
    by (simp add: Cons.IH labelSetEnabled_parents)
qed

lemma filterByCategories_category_fields:
  "filterByCategories_category categories s =
     s\<lparr>devices := fst (filterEach_category (''all'' \<in> set categories) categories
                        (devices s) (scene s) (labels s)),
       scene := fst (snd (filterEach_category (''all'' \<in> set categories) categories
                        (devices s) (scene s) (labels s))),
       labels := snd (snd (filterEach_category (''all'' \<in> set categories) categories
                        (devices s) (scene s) (labels s)))\<rparr>"
  by (simp add: filterByCategories_category_def Let_def split_beta)

text \<open>
  A manager that differs from a well-shaped one in flags only (same names, meshes and
  label parents, a scene of the same length) is well-shaped.
\<close>

lemma map_of_meshes:
  "map_of (map (\<lambda>entry. (fst entry, mesh (snd entry))) xs) n = map_option mesh (map_of xs n)"
  by (induction xs) auto

lemma registry_wf_same_shape:
  assumes wf: "registry_wf s"
      and dev: "map (\<lambda>entry. (fst entry, mesh (snd entry))) (devices s') =
                map (\<lambda>entry. (fst entry, mesh (snd entry))) (devices s)"
      and len: "length (scene s') = length (scene s)"
      and lab: "map (\<lambda>entry. (fst entry, label_parent (snd entry))) (labels s') =
                map (\<lambda>entry. (fst entry, label_parent (snd entry))) (labels s)"
  shows "registry_wf s'"
proof -
  from dev have "map fst (map (\<lambda>entry. (fst entry, mesh (snd entry))) (devices s')) =
                 map fst (map (\<lambda>entry. (fst entry, mesh (snd entry))) (devices s))"
    by (simp only:)
  then have keys: "map fst (devices s') = map fst (devices s)" by (simp add: comp_def)
  from dev have "map snd (map (\<lambda>entry. (fst entry, mesh (snd entry))) (devices s')) =
                 map snd (map (\<lambda>entry. (fst entry, mesh (snd entry))) (devices s))"
    by (simp only:)
  then have meshes: "map (\<lambda>entry. mesh (snd entry)) (devices s') =
                     map (\<lambda>entry. mesh (snd entry)) (devices s)"
    by (simp add: comp_def)
  from lab have "map fst (map (\<lambda>entry. (fst entry, label_parent (snd entry))) (labels s')) =
                 map fst (map (\<lambda>entry. (fst entry, label_parent (snd entry))) (labels s))"
    by (simp only:)
  then have lkeys: "map fst (labels s') = map fst (labels s)" by (simp add: comp_def)
  have look: "map_option mesh (map_of (devices s') n) = map_option mesh (map_of (devices s) n)"
    for n
    using dev by (simp only: map_of_meshes [symmetric])
  have "list_all (\<lambda>entry. mesh (snd entry) < length (scene s')) (devices s')"
  proof -
    from wf have "list_all (\<lambda>m. m < length (scene s))
                    (map (\<lambda>entry. mesh (snd entry)) (devices s))"
      by (simp add: registry_wf_def list_all_iff)
    then have "list_all (\<lambda>m. m < length (scene s'))
                    (map (\<lambda>entry. mesh (snd entry)) (devices s'))"
      by (simp only: meshes len)
    then show ?thesis by (simp add: list_all_iff)
  qed
  moreover have "list_all (labelOnItsDevice s') (labels s')"
    unfolding list_all_iff
  proof
    fix entry assume "entry \<in> set (labels s')"
    then have "(fst entry, label_parent (snd entry)) \<in>
        set (map (\<lambda>entry. (fst entry, label_parent (snd entry))) (labels s'))"
      by force
    then have "(fst entry, label_parent (snd entry)) \<in>
        set (map (\<lambda>entry. (fst entry, label_parent (snd entry))) (labels s))"
      by (simp only: lab)
    then obtain entry0 where e0: "entry0 \<in> set (labels s)"
        "(fst entry0, label_parent (snd entry0)) = (fst entry, label_parent (snd entry))"
      by auto
    from wf e0(1) have "labelOnItsDevice s entry0"
      by (simp add: registry_wf_def list_all_iff)
    then obtain d where d: "map_of (devices s) (fst entry0) = Some d"
                           "label_parent (snd entry0) = mesh d"
      by (auto simp: labelOnItsDevice_def split: option.splits)
    from look [of "fst entry0"] d(1)
    obtain d' where "map_of (devices s') (fst entry0) = Some d'" "mesh d' = mesh d"
      by (cases "map_of (devices s') (fst entry0)") auto
    with d(2) e0(2) show "labelOnItsDevice s' entry"
      by (simp add: labelOnItsDevice_def)
  qed
  ultimately show ?thesis
    using wf by (simp add: registry_wf_def keys meshes lkeys del: map_map)
qed

lemma registry_wf_filterByCategories_category:
  assumes "registry_wf s"
  shows "registry_wf (filterByCategories_category categories s)"
proof (rule registry_wf_same_shape [OF assms])
  show "map (\<lambda>entry. (fst entry, mesh (snd entry)))
          (devices (filterByCategories_category categories s)) =
        map (\<lambda>entry. (fst entry, mesh (snd entry))) (devices s)"
    by (simp add: devices_filterByCategories_category comp_def split_beta)
  show "length (scene (filterByCategories_category categories s)) = length (scene s)"
    by (simp add: filterByCategories_category_fields filterEach_category_shape)
  show "map (\<lambda>entry. (fst entry, label_parent (snd entry)))
          (labels (filterByCategories_category categories s)) =
        map (\<lambda>entry. (fst entry, label_parent (snd entry))) (labels s)"
    by (simp add: filterByCategories_category_fields filterEach_category_shape)
qed

section \<open>Meshes follow the visible flag\<close>

lemma filterEach_scene_other:
  "r \<notin> (\<lambda>entry. mesh (snd entry)) ` set es \<Longrightarrow>
     fst (snd (filterEach showAll categories es sc ls)) ! r = sc ! r"
proof (induction es arbitrary: sc ls)
  case Nil
  show ?case by simp
next
  case (Cons e es)
  obtain name device where e: "e = (name, device)" by (cases e)
  from Cons.prems have "r \<noteq> mesh device" and "r \<notin> (\<lambda>entry. mesh (snd entry)) ` set es"
    by (simp_all add: e)
  then show ?case
    unfolding e filterEach_Cons_snd
    by (simp add: Cons.IH nth_setEnabled_other)
qed

lemma filterEach_scene_flags:
  assumes "distinct (map (\<lambda>entry. mesh (snd entry)) es)"
      and "\<forall>entry \<in> set es. mesh (snd entry) < length sc"
  shows "\<forall>entry \<in> set es.
           enabled (fst (snd (filterEach showAll categories es sc ls)) ! mesh (snd entry)) =
             (showAll \<or> categories_include categories (info_type (info (snd entry))))"
  using assms
proof (induction es arbitrary: sc ls)
  case Nil
  show ?case by simp
next
  case (Cons e es)
  obtain name device where e: "e = (name, device)" by (cases e)
  define b where "b = (showAll \<or> categories_include categories (info_type (info device)))"
  define sc1 where "sc1 = setEnabled (mesh device) b sc"
  define ls1 where
    "ls1 = labelSetEnabled name (\<lambda>lbl. b \<and> isEnabled_member (sc1 ! label_parent lbl)) ls"
  have step: "snd (filterEach showAll categories (e # es) sc ls) =
                snd (filterEach showAll categories es sc1 ls1)"
    unfolding e filterEach_Cons_snd by (simp add: b_def sc1_def ls1_def)
  from Cons.prems(1) have fresh: "mesh device \<notin> (\<lambda>entry. mesh (snd entry)) ` set es"
    and d_es: "distinct (map (\<lambda>entry. mesh (snd entry)) es)"
    by (simp_all add: e)
  from Cons.prems(2) have mesh_in: "mesh device < length sc"
    and in_es: "\<forall>entry \<in> set es. mesh (snd entry) < length sc1"
    by (simp_all add: e sc1_def)
  have head: "enabled (fst (snd (filterEach showAll categories es sc1 ls1)) ! mesh device) = b"
    using filterEach_scene_other [OF fresh, of showAll categories sc1 ls1] mesh_in
    by (simp add: sc1_def enabled_setEnabled_same)
  from Cons.IH [OF d_es in_es, of ls1] head show ?case
    unfolding step by (simp add: e b_def)
qed

lemma filterEach_category_scene_other:
  "r \<notin> (\<lambda>entry. mesh (snd entry)) ` set es \<Longrightarrow>
     fst (snd (filterEach_category showAll categories es sc ls)) ! r = sc ! r"
proof (induction es arbitrary: sc ls)
  case Nil
  show ?case by simp
next
  case (Cons e es)
  obtain name device where e: "e = (name, device)" by (cases e)
  from Cons.prems have "r \<noteq> mesh device" and "r \<notin> (\<lambda>entry. mesh (snd entry)) ` set es"
    by (simp_all add: e)
  then show ?case
    unfolding e filterEach_category_Cons_snd
    by (simp add: Cons.IH nth_setEnabled_other)
qed

lemma filterEach_category_scene_flags:
  assumes "distinct (map (\<lambda>entry. mesh (snd entry)) es)"
      and "\<forall>entry \<in> set es. mesh (snd entry) < length sc"
  shows "\<forall>entry \<in> set es.
           enabled (fst (snd (filterEach_category showAll categories es sc ls)) ! mesh (snd entry)) =
             (showAll \<or> categories_include categories (info_category (info (snd entry))))"
  using assms
proof (induction es arbitrary: sc ls)
  case Nil
  show ?case by simp
next
  case (Cons e es)
  obtain name device where e: "e = (name, device)" by (cases e)
  define b where "b = (showAll \<or> categories_include categories (info_category (info device)))"
  define sc1 where "sc1 = setEnabled (mesh device) b sc"
  define ls1 where "ls1 = labelSetEnabled name (\<lambda>lbl. b) ls"
  have step: "snd (filterEach_category showAll categories (e # es) sc ls) =
                snd (filterEach_category showAll categories es sc1 ls1)"
    unfolding e filterEach_category_Cons_snd by (simp add: b_def sc1_def ls1_def)
  from Cons.prems(1) have fresh: "mesh device \<notin> (\<lambda>entry. mesh (snd entry)) ` set es"
    and d_es: "distinct (map (\<lambda>entry. mesh (snd entry)) es)"
    by (simp_all add: e)
  from Cons.prems(2) have mesh_in: "mesh device < length sc"
    and in_es: "\<forall>entry \<in> set es. mesh (snd entry) < length sc1"
    by (simp_all add: e sc1_def)
  have head: "enabled (fst (snd (filterEach_category showAll categories es sc1 ls1)) ! mesh device) = b"
    using filterEach_category_scene_other [OF fresh, of showAll categories sc1 ls1] mesh_in
    by (simp add: sc1_def enabled_setEnabled_same)
  from Cons.IH [OF d_es in_es, of ls1] head show ?case
    unfolding step by (simp add: e b_def)
qed

lemma meshesFollowVisible_filterByCategories:
  assumes "registry_wf s"
  shows "meshesFollowVisible (filterByCategories categories s)"
proof -
  from assms have 2: "distinct (map (\<lambda>entry. mesh (snd entry)) (devices s))"
    and 3: "\<forall>entry \<in> set (devices s). mesh (snd entry) < length (scene s)"
    by (simp_all add: registry_wf_def list_all_iff)
  have sc: "scene (filterByCategories categories s) =
              fst (snd (filterEach (''all'' \<in> set categories) categories
                          (devices s) (scene s) (labels s)))"
    by (simp add: filterByCategories_fields)
  from filterEach_scene_flags [OF 2 3, of "''all'' \<in> set categories" categories "labels s"]
  show ?thesis
    unfolding meshesFollowVisible_def list_all_iff devices_filterByCategories sc
    by (auto simp: split_beta)
qed

lemma meshesFollowVisible_filterByCategories_category:
  assumes "registry_wf s"
  shows "meshesFollowVisible (filterByCategories_category categories s)"
proof -
  from assms have 2: "distinct (map (\<lambda>entry. mesh (snd entry)) (devices s))"
    and 3: "\<forall>entry \<in> set (devices s). mesh (snd entry) < length (scene s)"
    by (simp_all add: registry_wf_def list_all_iff)
  have sc: "scene (filterByCategories_category categories s) =
              fst (snd (filterEach_category (''all'' \<in> set categories) categories
                          (devices s) (scene s) (labels s)))"
    by (simp add: filterByCategories_category_fields)
  from filterEach_category_scene_flags
         [OF 2 3, of "''all'' \<in> set categories" categories "labels s"]
  show ?thesis
    unfolding meshesFollowVisible_def list_all_iff devices_filterByCategories_category sc
    by (auto simp: split_beta)
qed

lemma meshesFollowVisible_toggleLabels:
  "meshesFollowVisible s \<Longrightarrow> meshesFollowVisible (toggleLabels v s)"
  by (simp add: meshesFollowVisible_def toggleLabels_def)

section \<open>Loading keeps the shape of the registry\<close>

lemma set_update_subset: "set (AList.update k v al) \<subseteq> insert (k, v) (set al)"
  by (induction al) auto

lemma distinct_update_fresh:
  assumes "distinct (map f al)" and "\<forall>entry \<in> set al. f entry \<noteq> f (k, v)"
  shows "distinct (map f (AList.update k v al))"
  using assms
proof (induction al)
  case Nil
  show ?case by simp
next
  case (Cons p ps)
  show ?case
  proof (cases "fst p = k")
    case True
    with Cons.prems show ?thesis by auto
  next
    case False
    have "f p \<notin> f ` set (AList.update k v ps)"
    proof
      assume "f p \<in> f ` set (AList.update k v ps)"
      then obtain q where q: "q \<in> set (AList.update k v ps)" "f p = f q" by auto
      with set_update_subset [of k v ps] have "q = (k, v) \<or> q \<in> set ps" by auto
      with q(2) Cons.prems show False by auto
    qed
    with False Cons show ?thesis by simp
  qed
qed

lemma registry_wf_scene_append:
  assumes "registry_wf s" and "devices s' = devices s" and "labels s' = labels s"
      and "scene s' = scene s @ xs"
  shows "registry_wf s'"
  using assms by (auto simp: registry_wf_def list_all_iff labelOnItsDevice_def)

lemma preloadModel_fields:
  "devices (preloadModel e t p s) = devices s \<and> labels (preloadModel e t p s) = labels s \<and>
   importLog (preloadModel e t p s) = importLog s @ [p] \<and>
   (\<exists>xs. scene (preloadModel e t p s) = scene s @ xs)"
  by (simp add: preloadModel_def add_node_def Let_def)

lemma preloadLoop_fields:
  "devices (preloadLoop e ps s) = devices s \<and> labels (preloadLoop e ps s) = labels s \<and>
   importLog (preloadLoop e ps s) = importLog s @ map snd ps \<and>
   (\<exists>xs. scene (preloadLoop e ps s) = scene s @ xs)"
proof (induction ps arbitrary: s)
  case Nil
  show ?case by simp
next
  case (Cons a ps)
  obtain t p where a: "a = (t, p)" by (cases a)
  from preloadModel_fields [of e t p s] obtain xs where
    xs: "scene (preloadModel e t p s) = scene s @ xs" by blast
  from Cons.IH [of "preloadModel e t p s"] obtain ys where
    ys: "scene (preloadLoop e ps (preloadModel e t p s)) = scene (preloadModel e t p s) @ ys"
    by blast
  from xs ys have "scene (preloadLoop e (a # ps) s) = scene s @ (xs @ ys)"
    by (simp add: a)
  then have "\<exists>zs. scene (preloadLoop e (a # ps) s) = scene s @ zs" ..
  then show ?case
    using Cons.IH [of "preloadModel e t p s"] preloadModel_fields [of e t p s]
    by (simp add: a)
qed

lemma meshesFollowVisible_scene_append:
  assumes "registry_wf s" and "meshesFollowVisible s" and "devices s' = devices s"
      and "scene s' = scene s @ xs"
  shows "meshesFollowVisible s'"
  using assms
  by (auto simp: registry_wf_def meshesFollowVisible_def list_all_iff nth_append)

lemma preloadModels_keeps:
  assumes "registry_wf s"
  shows "registry_wf (preloadModels e s)"
    and "meshesFollowVisible s \<Longrightarrow> meshesFollowVisible (preloadModels e s)"
proof -
  from preloadLoop_fields [of e modelPaths s] obtain xs where
    f: "devices (preloadModels e s) = devices s" "labels (preloadModels e s) = labels s"
       "scene (preloadModels e s) = scene s @ xs"
    unfolding preloadModels_def by blast
  from assms f show "registry_wf (preloadModels e s)"
    by (blast intro: registry_wf_scene_append)
  from assms f show "meshesFollowVisible s \<Longrightarrow> meshesFollowVisible (preloadModels e s)"
    by (blast intro: meshesFollowVisible_scene_append)
qed

text \<open>
  A manager that got one more node at the end of the scene, and a device on that node and
  a label on it under one name, as \<open>createDevice\<close> and \<open>loadDevice\<close> make it.
\<close>

lemma registered_keeps:
  assumes wf: "registry_wf s"
      and s': "s' = s\<lparr>scene := scene s @ [n],
                       devices := AList.update k \<lparr>mesh = length (scene s), info = d, visible = True\<rparr>
                                    (devices s),
                       labels := AList.update k
                                   \<lparr>label_enabled = True, label_parent = length (scene s)\<rparr>
                                   (labels s)\<rparr>"
      and en: "enabled n"
  shows "registry_wf s'"
    and "meshesFollowVisible s \<Longrightarrow> meshesFollowVisible s'"
proof -
  let ?dv = "\<lparr>mesh = length (scene s), info = d, visible = True\<rparr>"
  let ?lb = "\<lparr>label_enabled = True, label_parent = length (scene s)\<rparr>"
  from wf have 1: "distinct (map fst (devices s))"
    and 2: "distinct (map (\<lambda>entry. mesh (snd entry)) (devices s))"
    and 3: "\<forall>entry \<in> set (devices s). mesh (snd entry) < length (scene s)"
    and 4: "distinct (map fst (labels s))"
    and 5: "\<forall>entry \<in> set (labels s). labelOnItsDevice s entry"
    by (simp_all add: registry_wf_def list_all_iff)
  have a: "distinct (map fst (AList.update k ?dv (devices s)))"
    using 1 by (rule distinct_update)
  have b: "distinct (map fst (AList.update k ?lb (labels s)))"
    using 4 by (rule distinct_update)
  have c: "distinct (map (\<lambda>entry. mesh (snd entry)) (AList.update k ?dv (devices s)))"
    using 2 3 by (intro distinct_update_fresh) auto
  have d: "\<forall>entry \<in> set (AList.update k ?dv (devices s)).
             mesh (snd entry) < length (scene s @ [n])"
    using 3 set_update_subset [of k ?dv "devices s"] by fastforce
  have e: "labelOnItsDevice s' entry"
    if "entry \<in> set (AList.update k ?lb (labels s))" for entry
  proof -
    from that have "(fst entry, snd entry) \<in> set (AList.update k ?lb (labels s))"
      by simp
    from set_update_cases [OF 4 this]
    consider "fst entry = k" "snd entry = ?lb"
      | "entry \<in> set (labels s)" "fst entry \<noteq> k" by auto
    then show ?thesis
    proof cases
      case 1
      then show ?thesis by (simp add: labelOnItsDevice_def s' update_conv')
    next
      case 2
      with 5 have "labelOnItsDevice s entry" by blast
      with 2(2) show ?thesis by (simp add: labelOnItsDevice_def s' update_conv')
    qed
  qed
  from a b c d e show "registry_wf s'"
    by (simp add: registry_wf_def list_all_iff s')
  assume inv: "meshesFollowVisible s"
  have "enabled ((scene s @ [n]) ! mesh (snd entry)) = visible (snd entry)"
    if "entry \<in> set (AList.update k ?dv (devices s))" for entry
  proof -
    from that set_update_subset [of k ?dv "devices s"]
    consider "entry = (k, ?dv)" | "entry \<in> set (devices s)" by auto
    then show ?thesis
    proof cases
      case 1
      with en show ?thesis by simp
    next
      case 2
      with 3 have "mesh (snd entry) < length (scene s)" by blast
      moreover from inv 2 have "enabled (scene s ! mesh (snd entry)) = visible (snd entry)"
        by (simp add: meshesFollowVisible_def list_all_iff)
      ultimately show ?thesis by (simp add: nth_append)
    qed
  qed
  then show "meshesFollowVisible s'"
    by (simp add: meshesFollowVisible_def list_all_iff s')
qed

lemma createDevice_keeps:
  assumes wf: "registry_wf s"
  shows "registry_wf (createDevice e d s)"
    and "meshesFollowVisible s \<Longrightarrow> meshesFollowVisible (createDevice e d s)"
proof -
  have "registry_wf (createDevice e d s) \<and>
        (meshesFollowVisible s \<longrightarrow> meshesFollowVisible (createDevice e d s))"
  proof (cases "creationSucceeds e s d")
    case False
    with wf show ?thesis by (simp add: createDevice_failed)
  next
    case True
    from createDevice_created [OF True] obtain n where en: "enabled n" and
      eq: "createDevice e d s =
             s\<lparr>scene := scene s @ [n],
               devices := AList.update (info_name d)
                            \<lparr>mesh = length (scene s), info = d, visible = True\<rparr> (devices s),
               labels := AList.update (info_name d)
                            \<lparr>label_enabled = True, label_parent = length (scene s)\<rparr> (labels s)\<rparr>"
      by blast
    have 1: "registry_wf (createDevice e d s)"
      by (rule registered_keeps(1) [OF wf eq en])
    have 2: "meshesFollowVisible (createDevice e d s)" if "meshesFollowVisible s"
      using that by (rule registered_keeps(2) [OF wf eq en])
    from 1 2 show ?thesis by blast
  qed
  then show "registry_wf (createDevice e d s)"
    and "meshesFollowVisible s \<Longrightarrow> meshesFollowVisible (createDevice e d s)"
    by blast+
qed

lemma loadDevice_keeps:
  assumes wf: "registry_wf s"
  shows "registry_wf (loadDevice d s)"
    and "meshesFollowVisible s \<Longrightarrow> meshesFollowVisible (loadDevice d s)"
proof -
  let ?n = "\<lparr>node_name = template_str (info_name d), position = Vector3 0 0 0, enabled = True\<rparr>"
  have en: "enabled ?n" by simp
  show "registry_wf (loadDevice d s)"
    by (rule registered_keeps(1) [OF wf loadDevice_fields en])
  assume "meshesFollowVisible s"
  then show "meshesFollowVisible (loadDevice d s)"
    by (rule registered_keeps(2) [OF wf loadDevice_fields en])
qed

lemma createDevices_keeps:
  "registry_wf s \<Longrightarrow> meshesFollowVisible s \<Longrightarrow>
     registry_wf (createDevices e ds s) \<and> meshesFollowVisible (createDevices e ds s)"
  by (induction ds arbitrary: s) (simp_all add: createDevice_keeps)

lemma apply_operation_keeps:
  assumes "registry_wf s" and "meshesFollowVisible s"
  shows "registry_wf (apply_operation op s) \<and> meshesFollowVisible (apply_operation op s)"
proof (cases op)
  case (LoadDevices e ds)
  with assms show ?thesis
    by (simp add: loadDevices_def createDevices_keeps preloadModels_keeps)
next
  case (FilterByCategories categories)
  with assms show ?thesis
    by (simp add: registry_wf_filterByCategories meshesFollowVisible_filterByCategories)
next
  case (ToggleLabels v)
  with assms show ?thesis
    by (simp add: registry_wf_toggleLabels meshesFollowVisible_toggleLabels)
next
  case (LoadDevice d)
  with assms show ?thesis
    by (simp add: loadDevice_keeps)
next
  case (FilterByCategories_category categories)
  with assms show ?thesis
    by (simp add: registry_wf_filterByCategories_category
          meshesFollowVisible_filterByCategories_category)
qed

lemma run_keeps:
  "registry_wf s \<Longrightarrow> meshesFollowVisible s \<Longrightarrow>
     registry_wf (run ops s) \<and> meshesFollowVisible (run ops s)"
  unfolding run_def
  by (induction ops arbitrary: s) (simp_all add: apply_operation_keeps)

lemma new_DeviceManager_wf:
  "registry_wf new_DeviceManager \<and> meshesFollowVisible new_DeviceManager"
  by (simp add: registry_wf_def meshesFollowVisible_def new_DeviceManager_def)

lemma reachable_wf:
  "registry_wf (run ops new_DeviceManager) \<and> meshesFollowVisible (run ops new_DeviceManager)"
  using new_DeviceManager_wf by (simp add: run_keeps)

section \<open>Labels and their parents\<close>

text \<open>
  What the source itself does to a label's own flag: the operand \<open>label.parent.isEnabled\<close>
  is always truthy, so \<open>toggleLabels\<close> gives every label the value it was called with,
  hidden parent or not.
\<close>

lemma toggleLabels_own_flag:
  "map (\<lambda>entry. label_enabled (snd entry)) (labels (toggleLabels v s)) =
     map (\<lambda>entry. v) (labels s)"
  by (simp add: toggleLabels_def isEnabled_member_def comp_def split_beta)



section \<open>Loading a name twice\<close>

text \<open>
  C8, as the claim states it, fails.  The sample data of \<open>loadSampleData\<close> names two
  switches and two access points alike.  After loading it the registry has three entries
  and the scene five device meshes, two of them made for \<open>FortiSwitch-148F\<close>; the first
  of the two is no longer registered, so hiding every device leaves it enabled.  The older
  \<open>loadDevice\<close> does the same with its boxes.
\<close>

theorem duplicate_name_two_visuals:
  "getDeviceCount (loadDevices assets_present sampleDevices new_DeviceManager) = 3 \<and>
   map node_name (drop 8 (scene (loadDevices assets_present sampleDevices new_DeviceManager))) =
     [''FortiGate-100F_3d_model'', ''FortiSwitch-148F_3d_model'', ''FortiSwitch-148F_3d_model'',
      ''FortiAP-431F_3d_model'', ''FortiAP-431F_3d_model''] \<and>
   map enabled (drop 8 (scene (loadDevices assets_present sampleDevices new_DeviceManager))) =
     [True, True, True, True, True] \<and>
   map enabled (drop 8 (scene (filterByCategories []
      (loadDevices assets_present sampleDevices new_DeviceManager)))) =
     [False, True, False, True, False] \<and>
   getDeviceCount (loadDevice (descriptor ''sw'' ''switch'')
      (loadDevice (descriptor ''sw'' ''switch'') new_DeviceManager)) = 1 \<and>
   map node_name (scene (loadDevice (descriptor ''sw'' ''switch'')
      (loadDevice (descriptor ''sw'' ''switch'') new_DeviceManager))) = [''sw'', ''sw'']"
  by code_simp

text \<open>
  C8, amended.  Names are unique keys of the registry and of the label map in every state
  the operations reach.  A load of a descriptor whose name is registered already is not
  rejected: when its mesh is created, the registry keeps its keys and their order and
  holds the new mesh and the new descriptor under that name, and the label map holds a
  new label on the new mesh.  The same holds for the older \<open>loadDevice\<close>.
\<close>

theorem duplicate_name_replaces_entry:
  "distinct (map fst (devices (run ops new_DeviceManager))) \<and>
   distinct (map fst (labels (run ops new_DeviceManager))) \<and>
   (creationSucceeds e s d \<and> info_name d \<in> set (map fst (devices s)) \<longrightarrow>
      map fst (devices (createDevice e d s)) = map fst (devices s) \<and>
      map_of (devices (createDevice e d s)) (info_name d)
        = Some \<lparr>mesh = length (scene s), info = d, visible = True\<rparr> \<and>
      map_of (labels (createDevice e d s)) (info_name d)
        = Some \<lparr>label_enabled = True, label_parent = length (scene s)\<rparr>) \<and>
   (info_name d \<in> set (map fst (devices s)) \<longrightarrow>
      map fst (devices (loadDevice d s)) = map fst (devices s) \<and>
      map_of (devices (loadDevice d s)) (info_name d)
        = Some \<lparr>mesh = length (scene s), info = d, visible = True\<rparr> \<and>
      map_of (labels (loadDevice d s)) (info_name d)
        = Some \<lparr>label_enabled = True, label_parent = length (scene s)\<rparr>)"
proof (intro conjI impI)
  from reachable_wf [of ops]
  show "distinct (map fst (devices (run ops new_DeviceManager)))"
    and "distinct (map fst (labels (run ops new_DeviceManager)))"
    by (simp_all add: registry_wf_def)
next
  assume a: "creationSucceeds e s d \<and> info_name d \<in> set (map fst (devices s))"
  from createDevice_created [of e s d] a obtain n where
    cd: "createDevice e d s =
             s\<lparr>scene := scene s @ [n],
               devices := AList.update (info_name d)
                            \<lparr>mesh = length (scene s), info = d, visible = True\<rparr> (devices s),
               labels := AList.update (info_name d)
                            \<lparr>label_enabled = True, label_parent = length (scene s)\<rparr> (labels s)\<rparr>"
    by blast
  from a show "map fst (devices (createDevice e d s)) = map fst (devices s)"
    by (simp add: cd update_keys)
  show "map_of (devices (createDevice e d s)) (info_name d)
        = Some \<lparr>mesh = length (scene s), info = d, visible = True\<rparr>"
    by (simp add: cd update_conv')
  show "map_of (labels (createDevice e d s)) (info_name d)
        = Some \<lparr>label_enabled = True, label_parent = length (scene s)\<rparr>"
    by (simp add: cd update_conv')
next
  assume a: "info_name d \<in> set (map fst (devices s))"
  then show "map fst (devices (loadDevice d s)) = map fst (devices s)"
    by (simp add: loadDevice_fields update_keys)
  show "map_of (devices (loadDevice d s)) (info_name d)
        = Some \<lparr>mesh = length (scene s), info = d, visible = True\<rparr>"
    by (simp add: loadDevice_fields update_conv')
  show "map_of (labels (loadDevice d s)) (info_name d)
        = Some \<lparr>label_enabled = True, label_parent = length (scene s)\<rparr>"
    by (simp add: loadDevice_fields update_conv')
qed

text \<open>The second switch of the sample data, loaded after the firewall and the first switch.\<close>

theorem duplicate_name_replaces_entry_witness:
  "creationSucceeds assets_present
     (loadDevices assets_present (take 2 sampleDevices) new_DeviceManager) (sampleDevices ! 2) \<and>
   info_name (sampleDevices ! 2) \<in> set (map fst (devices
     (loadDevices assets_present (take 2 sampleDevices) new_DeviceManager))) \<and>
   map fst (devices (createDevice assets_present (sampleDevices ! 2)
     (loadDevices assets_present (take 2 sampleDevices) new_DeviceManager))) =
     [Some ''FortiGate-100F'', Some ''FortiSwitch-148F''] \<and>
   map_of (devices (createDevice assets_present (sampleDevices ! 2)
     (loadDevices assets_present (take 2 sampleDevices) new_DeviceManager)))
       (Some ''FortiSwitch-148F'') = Some \<lparr>mesh = 10, info = sampleDevices ! 2, visible = True\<rparr> \<and>
   map_of (labels (createDevice assets_present (sampleDevices ! 2)
     (loadDevices assets_present (take 2 sampleDevices) new_DeviceManager)))
       (Some ''FortiSwitch-148F'') = Some \<lparr>label_enabled = True, label_parent = 10\<rparr>"
proof -
  let ?s = "loadDevices assets_present (take 2 sampleDevices) new_DeviceManager"
  let ?d = "sampleDevices ! 2"
  have h1: "creationSucceeds assets_present ?s ?d"
    unfolding creationSucceeds_def by code_simp
  have h2: "info_name ?d \<in> set (map fst (devices ?s))"
    by code_simp
  have k: "map fst (devices ?s) = [Some ''FortiGate-100F'', Some ''FortiSwitch-148F'']"
    by code_simp
  have n: "info_name ?d = Some ''FortiSwitch-148F''"
    by code_simp
  have len: "length (scene ?s) = 10"
    by code_simp
  from duplicate_name_replaces_entry [of _ assets_present ?s ?d] h1 h2
  have "map fst (devices (createDevice assets_present ?d ?s)) = map fst (devices ?s)"
    and "map_of (devices (createDevice assets_present ?d ?s)) (info_name ?d)
        = Some \<lparr>mesh = length (scene ?s), info = ?d, visible = True\<rparr>"
    and "map_of (labels (createDevice assets_present ?d ?s)) (info_name ?d)
        = Some \<lparr>label_enabled = True, label_parent = length (scene ?s)\<rparr>"
    by blast+
  with h1 h2 k n len show ?thesis by simp
qed

section \<open>Asset imports\<close>

lemma createDevice_cache:
  "importLog (createDevice e d s) = importLog s \<and>
   loadedModels (createDevice e d s) = loadedModels s"
proof (cases "creationSucceeds e s d")
  case True
  from createDevice_created [OF True] show ?thesis by auto
next
  case False
  then show ?thesis by (simp add: createDevice_failed)
qed

lemma createDevices_cache:
  "importLog (createDevices e ds s) = importLog s \<and>
   loadedModels (createDevices e ds s) = loadedModels s"
  by (induction ds arbitrary: s) (simp_all add: createDevice_cache)

lemma preloadModel_loaded:
  "map_of (loadedModels (preloadModel e t p s)) k =
     (if k = t then Some (if importMesh e p then Some (length (scene s)) else None)
      else map_of (loadedModels s) k)"
  by (simp add: preloadModel_def add_node_def Let_def update_conv')

lemma preloadLoop_other:
  "k \<notin> fst ` set ps \<Longrightarrow>
     map_of (loadedModels (preloadLoop e ps s)) k = map_of (loadedModels s) k"
  by (induction ps arbitrary: s) (auto simp: preloadModel_loaded)

lemma preloadLoop_loaded:
  "distinct (map fst ps) \<Longrightarrow> (k, p) \<in> set ps \<Longrightarrow>
     (loadedModel (preloadLoop e ps s) (Some k) \<noteq> None) = importMesh e p"
proof (induction ps arbitrary: s)
  case Nil
  then show ?case by simp
next
  case (Cons a ps)
  obtain t q where a: "a = (t, q)" by (cases a)
  show ?case
  proof (cases "(k, p) = a")
    case True
    with Cons.prems a have "k \<notin> fst ` set ps" by auto
    from preloadLoop_other [OF this, of e "preloadModel e t q s"] True a show ?thesis
      by (simp add: loadedModel_def preloadModel_loaded)
  next
    case False
    with Cons.prems have "(k, p) \<in> set ps" "distinct (map fst ps)" by auto
    from Cons.IH [OF this(2) this(1)] show ?thesis by (simp add: a)
  qed
qed

lemma count_list_distinct:
  "distinct xs \<Longrightarrow> count_list xs x = (if x \<in> set xs then 1 else 0)"
  by (induction xs) auto

text \<open>
  C4, as the claim states it, fails: \<open>preloadModels\<close> imports every model of its table
  on every call, whatever \<open>loadedModels\<close> holds, and \<open>loadDevices\<close> calls it every time.
  With no asset present, one \<open>loadDevices\<close> call stores the failure \<open>null\<close> for the router
  model after one import; a second call imports the same path again.
\<close>

theorem preload_repeats_imports:
  "map_of (loadedModels (loadDevices assets_missing [] new_DeviceManager)) ''router'' = Some None \<and>
   count_list (importLog (loadDevices assets_missing [] new_DeviceManager))
     ''assets/models/router.glb'' = 1 \<and>
   count_list (importLog (loadDevices assets_missing []
       (loadDevices assets_missing [] new_DeviceManager))) ''assets/models/router.glb'' = 2 \<and>
   \<not> count_list (importLog (run [LoadDevices assets_missing [], LoadDevices assets_missing []]
       new_DeviceManager)) ''assets/models/router.glb'' \<le> 1"
  by code_simp

text \<open>
  C4, amended.  Each call of \<open>preloadModels\<close>, and so each call of \<open>loadDevices\<close>,
  issues exactly one import for each of the eight model paths, in table order, and none
  else, however many devices are loaded; the table has no key and no path twice.  After
  the call the cache holds a template under a key exactly when that import resolved.
  Creating a device issues no import and leaves the cache as it is, so a failure in the
  cache is not tried again by device creation (only by the next \<open>loadDevices\<close>).
\<close>

theorem preload_imports_once_per_call:
  "importLog (preloadModels e s) = importLog s @ map snd modelPaths \<and>
   importLog (loadDevices e deviceData s) = importLog s @ map snd modelPaths \<and>
   count_list (importLog (loadDevices e deviceData s)) path =
     count_list (importLog s) path + (if path \<in> set (map snd modelPaths) then 1 else 0) \<and>
   distinct (map fst modelPaths) \<and> distinct (map snd modelPaths) \<and>
   map (\<lambda>(key, path). loadedModel (loadDevices e deviceData s) (Some key) \<noteq> None) modelPaths =
     map (\<lambda>(key, path). importMesh e path) modelPaths \<and>
   importLog (createDevice e d s) = importLog s \<and>
   loadedModels (createDevice e d s) = loadedModels s"
proof -
  have log: "importLog (preloadModels e s) = importLog s @ map snd modelPaths"
    by (simp add: preloadModels_def preloadLoop_fields)
  have log2: "importLog (loadDevices e deviceData s) = importLog s @ map snd modelPaths"
    by (simp add: loadDevices_def createDevices_cache log)
  have dk: "distinct (map fst modelPaths)" and dp: "distinct (map snd modelPaths)"
    by (simp_all add: modelPaths_def)
  have cnt: "count_list (importLog (loadDevices e deviceData s)) path =
     count_list (importLog s) path + (if path \<in> set (map snd modelPaths) then 1 else 0)"
    using dp by (simp add: log2 count_list_distinct)
  have "(loadedModel (loadDevices e deviceData s) (Some k) \<noteq> None) = importMesh e p"
    if "(k, p) \<in> set modelPaths" for k p
  proof -
    have "loadedModel (loadDevices e deviceData s) (Some k) =
          loadedModel (preloadLoop e modelPaths s) (Some k)"
      by (simp add: loadedModel_def loadDevices_def createDevices_cache preloadModels_def)
    with preloadLoop_loaded [OF dk that, of e s] show ?thesis by simp
  qed
  then have cache: "map (\<lambda>(key, path). loadedModel (loadDevices e deviceData s) (Some key) \<noteq> None)
                      modelPaths = map (\<lambda>(key, path). importMesh e path) modelPaths"
    by (intro map_cong) auto
  from log log2 cnt dk dp cache createDevice_cache [of e d s] show ?thesis by blast
qed

section \<open>A batch with failing descriptors\<close>

lemma creationSucceeds_cong:
  "loadedModels s = loadedModels s' \<Longrightarrow> creationSucceeds e s d = creationSucceeds e s' d"
  by (auto simp: creationSucceeds_def createMesh_def loadedModel_def proceduralModel_def
        createModelInstance_def add_node_def Let_def split: option.splits sum.splits)

lemma creationSucceeds_createDevice:
  "creationSucceeds e (createDevice e d s) = creationSucceeds e s"
  by (rule ext, rule creationSucceeds_cong) (simp add: createDevice_cache)

lemma find_snoc:
  "find P (xs @ [x]) = (case find P xs of None \<Rightarrow> (if P x then Some x else None) | Some y \<Rightarrow> Some y)"
  by (induction xs) simp_all

lemma createDevices_skip:
  "createDevices e ds s = createDevices e (filter (creationSucceeds e s) ds) s"
proof (induction ds arbitrary: s)
  case Nil
  show ?case by simp
next
  case (Cons d ds)
  have same: "filter (creationSucceeds e (createDevice e d s)) ds = filter (creationSucceeds e s) ds"
    by (simp add: creationSucceeds_createDevice)
  show ?case
  proof (cases "creationSucceeds e s d")
    case True
    with Cons.IH [of "createDevice e d s"] same show ?thesis by simp
  next
    case False
    with Cons.IH [of s] show ?thesis by (simp add: createDevice_failed)
  qed
qed

lemma createDevice_keys:
  "map fst (devices (createDevice e d s)) =
     (if creationSucceeds e s d then insertKeys (map fst (devices s)) [info_name d]
      else map fst (devices s))"
proof (cases "creationSucceeds e s d")
  case True
  from createDevice_created [OF True] obtain n where
    "createDevice e d s =
             s\<lparr>scene := scene s @ [n],
               devices := AList.update (info_name d)
                            \<lparr>mesh = length (scene s), info = d, visible = True\<rparr> (devices s),
               labels := AList.update (info_name d)
                            \<lparr>label_enabled = True, label_parent = length (scene s)\<rparr> (labels s)\<rparr>"
    by blast
  with True show ?thesis by (simp add: update_keys)
next
  case False
  then show ?thesis by (simp add: createDevice_failed)
qed

lemma createDevices_keys:
  "map fst (devices (createDevices e ds s)) =
     insertKeys (map fst (devices s)) (map info_name (filter (creationSucceeds e s) ds))"
proof (induction ds arbitrary: s)
  case Nil
  show ?case by simp
next
  case (Cons d ds)
  show ?case
    by (simp add: Cons.IH creationSucceeds_createDevice createDevice_keys)
qed

lemma createDevice_info:
  "map_option info (map_of (devices (createDevice e d s)) k) =
     (if creationSucceeds e s d \<and> info_name d = k then Some d
      else map_option info (map_of (devices s) k))"
proof (cases "creationSucceeds e s d")
  case True
  from createDevice_created [OF True] obtain n where
    "createDevice e d s =
             s\<lparr>scene := scene s @ [n],
               devices := AList.update (info_name d)
                            \<lparr>mesh = length (scene s), info = d, visible = True\<rparr> (devices s),
               labels := AList.update (info_name d)
                            \<lparr>label_enabled = True, label_parent = length (scene s)\<rparr> (labels s)\<rparr>"
    by blast
  with True show ?thesis by (simp add: update_conv')
next
  case False
  then show ?thesis by (simp add: createDevice_failed)
qed

text \<open>Under a name the registry holds the last descriptor of that name that was created.\<close>

lemma createDevices_info:
  "map_option info (map_of (devices (createDevices e ds s)) k) =
     (case find (\<lambda>d. info_name d = k) (rev (filter (creationSucceeds e s) ds)) of
        None \<Rightarrow> map_option info (map_of (devices s) k)
      | Some d \<Rightarrow> Some d)"
proof (induction ds arbitrary: s)
  case Nil
  show ?case by simp
next
  case (Cons d ds)
  show ?case
    by (simp add: Cons.IH creationSucceeds_createDevice createDevice_info find_snoc
             split: option.splits)
qed

lemma insertKeys_mem: "k \<in> set ks \<or> k \<in> set new \<Longrightarrow> k \<in> set (insertKeys ks new)"
  by (induction new arbitrary: ks) auto

lemma insertKeys_fresh:
  "distinct new \<Longrightarrow> set new \<inter> set ks = {} \<Longrightarrow> insertKeys ks new = ks @ new"
  by (induction new arbitrary: ks) auto

text \<open>
  On descriptor objects, a descriptor whose mesh creation throws is skipped and the loop
  goes on: \<open>loadDevices\<close> on a batch is \<open>loadDevices\<close> on the descriptors of the batch
  that can be created.  Every such descriptor is registered under its name; the
  registry's keys are the earlier keys followed by the new names in input order (a name
  at its first occurrence); under a name it holds the last created descriptor of that
  name.  When the created descriptors have distinct new names, the registry's keys are
  the earlier keys followed by exactly their names, in input order.
\<close>

lemma loadDevices_objects_skip_failures:
  fixes e s deviceData
  defines "created \<equiv> filter (creationSucceeds e (preloadModels e s)) deviceData"
  shows
  "loadDevices e deviceData s = loadDevices e created s \<and>
   map fst (devices (loadDevices e deviceData s)) =
     insertKeys (map fst (devices s)) (map info_name created) \<and>
   (\<forall>d \<in> set created. info_name d \<in> set (map fst (devices (loadDevices e deviceData s)))) \<and>
   map_option info (map_of (devices (loadDevices e deviceData s)) k) =
     (case find (\<lambda>d. info_name d = k) (rev created) of
        None \<Rightarrow> map_option info (map_of (devices s) k)
      | Some d \<Rightarrow> Some d) \<and>
   (distinct (map info_name created) \<and> set (map info_name created) \<inter> set (map fst (devices s)) = {}
      \<longrightarrow> map fst (devices (loadDevices e deviceData s)) =
            map fst (devices s) @ map info_name created)"
proof -
  let ?s0 = "preloadModels e s"
  have dev0: "devices ?s0 = devices s"
    by (simp add: preloadModels_def preloadLoop_fields)
  have skip: "loadDevices e deviceData s = loadDevices e created s"
    using createDevices_skip [of e deviceData ?s0]
    by (simp add: loadDevices_def created_def)
  have keys: "map fst (devices (loadDevices e deviceData s)) =
     insertKeys (map fst (devices s)) (map info_name created)"
    by (simp add: loadDevices_def createDevices_keys dev0 created_def)
  have mem: "\<forall>d \<in> set created. info_name d \<in> set (map fst (devices (loadDevices e deviceData s)))"
    unfolding keys by (auto intro: insertKeys_mem)
  have inf: "map_option info (map_of (devices (loadDevices e deviceData s)) k) =
     (case find (\<lambda>d. info_name d = k) (rev created) of
        None \<Rightarrow> map_option info (map_of (devices s) k)
      | Some d \<Rightarrow> Some d)"
    by (simp add: loadDevices_def createDevices_info dev0 created_def cong: option.case_cong)
  have ord: "distinct (map info_name created) \<and>
      set (map info_name created) \<inter> set (map fst (devices s)) = {}
      \<longrightarrow> map fst (devices (loadDevices e deviceData s)) =
            map fst (devices s) @ map info_name created"
    unfolding keys by (intro impI insertKeys_fresh) blast+
  from skip keys mem inf ord show ?thesis by blast
qed

text \<open>A batch whose second descriptor has no type, so that its builder throws.\<close>

lemma loadDevices_objects_skip_failures_example:
  "filter (creationSucceeds typed_only (preloadModels typed_only new_DeviceManager))
     [descriptor ''fw'' ''firewall'', untyped ''bad'', descriptor ''sw'' ''switch'']
     = [descriptor ''fw'' ''firewall'', descriptor ''sw'' ''switch''] \<and>
   distinct (map info_name [descriptor ''fw'' ''firewall'', descriptor ''sw'' ''switch'']) \<and>
   map fst (devices (loadDevices typed_only
     [descriptor ''fw'' ''firewall'', untyped ''bad'', descriptor ''sw'' ''switch'']
     new_DeviceManager)) = [Some ''fw'', Some ''sw''] \<and>
   getDeviceCount (loadDevices typed_only
     [descriptor ''fw'' ''firewall'', untyped ''bad'', descriptor ''sw'' ''switch'']
     new_DeviceManager) = 2"
proof -
  let ?ds = "[descriptor ''fw'' ''firewall'', untyped ''bad'', descriptor ''sw'' ''switch'']"
  let ?ok = "[descriptor ''fw'' ''firewall'', descriptor ''sw'' ''switch'']"
  have c: "filter (creationSucceeds typed_only (preloadModels typed_only new_DeviceManager)) ?ds = ?ok"
    unfolding creationSucceeds_def by code_simp
  have d: "distinct (map info_name ?ok)" by code_simp
  have f: "set (map info_name ?ok) \<inter> set (map fst (devices new_DeviceManager)) = {}"
    by (simp add: new_DeviceManager_def)
  have n: "map info_name ?ok = [Some ''fw'', Some ''sw'']" by code_simp
  from loadDevices_objects_skip_failures [of typed_only ?ds new_DeviceManager] d f
  have "map fst (devices (loadDevices typed_only ?ds new_DeviceManager)) =
          map fst (devices new_DeviceManager) @ map info_name ?ok"
    unfolding c by blast
  moreover have "map fst (devices new_DeviceManager) @ map info_name ?ok = [Some ''fw'', Some ''sw'']"
    by code_simp
  ultimately have k: "map fst (devices (loadDevices typed_only ?ds new_DeviceManager)) =
                  [Some ''fw'', Some ''sw'']"
    by (rule trans)
  then have "length (map fst (devices (loadDevices typed_only ?ds new_DeviceManager))) = 2"
    by simp
  then have g: "getDeviceCount (loadDevices typed_only ?ds new_DeviceManager) = 2"
    by (simp add: getDeviceCount_def)
  from c d k g show ?thesis by blast
qed

text \<open>
  A batch of objects goes through the loop to its end, and \<open>loadDevices\<close> resolves.
\<close>

lemma createDevices_elements_objects:
  "createDevices_elements e (map Some ds) s = (Resolved, createDevices e ds s)"
  by (induction ds arbitrary: s) (simp_all add: createDevice_element_def)

lemma loadDevices_elements_objects:
  "loadDevices_elements e (map Some ds) s = (Resolved, loadDevices e ds s)"
  by (simp add: loadDevices_elements_def loadDevices_def createDevices_elements_objects)

lemma createDevices_elements_null:
  "createDevices_elements e (map Some ds @ None # rest) s =
     (Rejected TypeError, createDevices e ds s)"
  by (induction ds arbitrary: s) (simp_all add: createDevice_element_def catchHandler_def)

text \<open>
  C5.  The claim fails on a batch with a \<open>null\<close> element.  \<open>createDevice\<close> on \<open>null\<close>
  throws in its \<open>try\<close> block and again in its \<open>catch\<close> handler, its promise rejects,
  and the loop of \<open>loadDevices\<close> ends there: \<open>loadDevices\<close> rejects with the TypeError,
  having registered what precedes the \<open>null\<close> element and nothing of what follows it.
  On a firewall, \<open>null\<close> and a switch, the switch can be created but only the firewall
  is registered; with a descriptor without a type in the place of \<open>null\<close>, whose builder
  throws, the firewall and the switch are both registered.
\<close>

theorem loadDevices_null_element_aborts:
  "loadDevices_elements e (map Some ds @ None # rest) s =
     (Rejected TypeError, loadDevices e ds s) \<and>
   creationSucceeds typed_only (preloadModels typed_only new_DeviceManager)
     (descriptor ''sw'' ''switch'') \<and>
   fst (loadDevices_elements typed_only
          [Some (descriptor ''fw'' ''firewall''), None, Some (descriptor ''sw'' ''switch'')]
          new_DeviceManager) = Rejected TypeError \<and>
   map fst (devices (snd (loadDevices_elements typed_only
          [Some (descriptor ''fw'' ''firewall''), None, Some (descriptor ''sw'' ''switch'')]
          new_DeviceManager))) = [Some ''fw''] \<and>
   fst (loadDevices_elements typed_only
          [Some (descriptor ''fw'' ''firewall''), Some (untyped ''bad''),
           Some (descriptor ''sw'' ''switch'')]
          new_DeviceManager) = Resolved \<and>
   map fst (devices (snd (loadDevices_elements typed_only
          [Some (descriptor ''fw'' ''firewall''), Some (untyped ''bad''),
           Some (descriptor ''sw'' ''switch'')]
          new_DeviceManager))) = [Some ''fw'', Some ''sw'']"
proof (intro conjI)
  show "loadDevices_elements e (map Some ds @ None # rest) s =
          (Rejected TypeError, loadDevices e ds s)"
    by (simp add: loadDevices_elements_def loadDevices_def createDevices_elements_null)
  show "creationSucceeds typed_only (preloadModels typed_only new_DeviceManager)
          (descriptor ''sw'' ''switch'')"
    unfolding creationSucceeds_def by code_simp
  show "fst (loadDevices_elements typed_only
          [Some (descriptor ''fw'' ''firewall''), None, Some (descriptor ''sw'' ''switch'')]
          new_DeviceManager) = Rejected TypeError"
    by code_simp
  show "map fst (devices (snd (loadDevices_elements typed_only
          [Some (descriptor ''fw'' ''firewall''), None, Some (descriptor ''sw'' ''switch'')]
          new_DeviceManager))) = [Some ''fw'']"
    by code_simp
  show "fst (loadDevices_elements typed_only
          [Some (descriptor ''fw'' ''firewall''), Some (untyped ''bad''),
           Some (descriptor ''sw'' ''switch'')]
          new_DeviceManager) = Resolved"
    by code_simp
  show "map fst (devices (snd (loadDevices_elements typed_only
          [Some (descriptor ''fw'' ''firewall''), Some (untyped ''bad''),
           Some (descriptor ''sw'' ''switch'')]
          new_DeviceManager))) = [Some ''fw'', Some ''sw'']"
    by code_simp
qed

end
